theory Spec2Isabelle
  imports Complex_Main "HOL-Library.Log_Nat"
begin

section \<open>JavaScript numbers and the clamped 8-bit pixel array\<close>

text \<open>
  The filters of \<^verbatim>\<open>src/lib/imageUtils.ts\<close> compute with JavaScript numbers and store
  into the \<^verbatim>\<open>Uint8ClampedArray\<close> of an \<^verbatim>\<open>ImageData\<close>. A number is modelled as an
  exact real or \<open>NaN\<close>: the rounding of binary64 arithmetic and its overflow to an
  infinity are not modelled, the propagation of \<open>NaN\<close> (which is what \<^verbatim>\<open>undefined\<close>
  becomes in arithmetic) is. Samples are natural numbers, and a buffer is valid when all
  of them are at most 255. The theorems that state the exact sample a filter stores, for
  every input, are proved over a second embedding of restore and of the style transfer
  in binary64 arithmetic (section Binary64 arithmetic), where rounding and overflow are
  modelled.
\<close>

datatype jsnum = NaN | Fin real

instantiation jsnum :: "{plus, minus, times, inverse, ord}"
begin

fun plus_jsnum :: "jsnum \<Rightarrow> jsnum \<Rightarrow> jsnum" where
  "plus_jsnum (Fin x) (Fin y) = Fin (x + y)"
| "plus_jsnum _ _ = NaN"

fun minus_jsnum :: "jsnum \<Rightarrow> jsnum \<Rightarrow> jsnum" where
  "minus_jsnum (Fin x) (Fin y) = Fin (x - y)"
| "minus_jsnum _ _ = NaN"

fun times_jsnum :: "jsnum \<Rightarrow> jsnum \<Rightarrow> jsnum" where
  "times_jsnum (Fin x) (Fin y) = Fin (x * y)"
| "times_jsnum _ _ = NaN"

text \<open>The only divisors of the source are a positive counter and the constant 50.\<close>

fun divide_jsnum :: "jsnum \<Rightarrow> jsnum \<Rightarrow> jsnum" where
  "divide_jsnum (Fin x) (Fin y) = (if y = 0 then NaN else Fin (x / y))"
| "divide_jsnum _ _ = NaN"

fun inverse_jsnum :: "jsnum \<Rightarrow> jsnum" where
  "inverse_jsnum (Fin x) = (if x = 0 then NaN else Fin (inverse x))"
| "inverse_jsnum NaN = NaN"

text \<open>A comparison with \<open>NaN\<close> on either side is false.\<close>

fun less_jsnum :: "jsnum \<Rightarrow> jsnum \<Rightarrow> bool" where
  "less_jsnum (Fin x) (Fin y) = (x < y)"
| "less_jsnum _ _ = False"

fun less_eq_jsnum :: "jsnum \<Rightarrow> jsnum \<Rightarrow> bool" where
  "less_eq_jsnum (Fin x) (Fin y) = (x \<le> y)"
| "less_eq_jsnum _ _ = False"

instance ..

end

text \<open>\<^verbatim>\<open>Math.min\<close>, \<^verbatim>\<open>Math.max\<close> and \<^verbatim>\<open>Math.abs\<close> return \<open>NaN\<close> as soon as an argument is.\<close>

fun Math_min :: "jsnum \<Rightarrow> jsnum \<Rightarrow> jsnum" where
  "Math_min (Fin x) (Fin y) = Fin (min x y)"
| "Math_min _ _ = NaN"

fun Math_max :: "jsnum \<Rightarrow> jsnum \<Rightarrow> jsnum" where
  "Math_max (Fin x) (Fin y) = Fin (max x y)"
| "Math_max _ _ = NaN"

fun Math_abs :: "jsnum \<Rightarrow> jsnum" where
  "Math_abs (Fin x) = Fin \<bar>x\<bar>"
| "Math_abs NaN = NaN"

text \<open>
  The conversion of a store into a \<^verbatim>\<open>Uint8ClampedArray\<close> (ECMAScript \<^verbatim>\<open>ToUint8Clamp\<close>):
  \<open>NaN\<close> becomes 0, the value is clamped to 0..255 and rounded to the nearest integer,
  a tie to the even one.
\<close>

fun ToUint8Clamp :: "jsnum \<Rightarrow> nat" where
  "ToUint8Clamp NaN = 0"
| "ToUint8Clamp (Fin x) =
     (if x \<le> 0 then 0
      else if 255 \<le> x then 255
      else let f = \<lfloor>x\<rfloor> in
        if of_int f + 1 / 2 < x then nat (f + 1)
        else if x < of_int f + 1 / 2 then nat f
        else if even f then nat f else nat (f + 1))"

text \<open>
  \<^verbatim>\<open>data[i]\<close> on the typed array: an index outside the array reads \<^verbatim>\<open>undefined\<close>, which
  every use in the source turns into \<open>NaN\<close>, and a store outside the array is ignored.
\<close>

definition rd :: "nat list \<Rightarrow> int \<Rightarrow> jsnum" where
  "rd data i = (if 0 \<le> i \<and> i < int (length data) then Fin (of_nat (data ! nat i)) else NaN)"

definition wr :: "nat list \<Rightarrow> int \<Rightarrow> jsnum \<Rightarrow> nat list" where
  "wr data i v = (if 0 \<le> i \<and> i < int (length data) then data[nat i := ToUint8Clamp v] else data)"

text \<open>\<^verbatim>\<open>for (let i = start; i < bound; i += 4) body\<close>, on the state the body updates.\<close>

function for_by4 :: "int \<Rightarrow> int \<Rightarrow> (int \<Rightarrow> 'a \<Rightarrow> 'a) \<Rightarrow> 'a \<Rightarrow> 'a" where
  "for_by4 i bound body s = (if i < bound then for_by4 (i + 4) bound body (body i s) else s)"
  by pat_completeness auto
termination
  by (relation "measure (\<lambda>(i, bound, body, s). nat (bound - i))") auto

declare for_by4.simps [simp del]

section \<open>The canvas\<close>

text \<open>
  A canvas has its dimensions, its 2D context when \<^verbatim>\<open>getContext('2d')\<close> gives one, and
  the backing store the context reads and writes: four samples (R, G, B, A) per pixel,
  row by row. \<^verbatim>\<open>getImageData(0, 0, width, height)\<close> raises \<^verbatim>\<open>IndexSizeError\<close> on a
  canvas without area and otherwise returns a copy of the store.
\<close>

record canvas =
  width :: nat
  height :: nat
  ctx :: bool
  pixels :: "nat list"

datatype error = IndexSizeError

definition getImageData :: "canvas \<Rightarrow> error + nat list" where
  "getImageData canvas =
     (if width canvas = 0 \<or> height canvas = 0 then Inl IndexSizeError
      else Inr (pixels canvas))"

definition valid_buffer :: "nat list \<Rightarrow> bool" where
  "valid_buffer data = list_all (\<lambda>v. v \<le> 255) data"

section \<open>calculateAttentionScore\<close>

definition score_body :: "nat list \<Rightarrow> int \<Rightarrow> int \<Rightarrow> jsnum \<times> nat \<Rightarrow> jsnum \<times> nat" where
  "score_body data w i = (\<lambda>(sum, count).
     let center = rd data i * Fin 0.299 + rd data (i + 1) * Fin 0.587
                    + rd data (i + 2) * Fin 0.114;
         top = rd data (i - w * 4) * Fin 0.299 + rd data (i - w * 4 + 1) * Fin 0.587
                    + rd data (i - w * 4 + 2) * Fin 0.114;
         bottom = rd data (i + w * 4) * Fin 0.299 + rd data (i + w * 4 + 1) * Fin 0.587
                    + rd data (i + w * 4 + 2) * Fin 0.114;
         left = rd data (i - 4) * Fin 0.299 + rd data (i - 3) * Fin 0.587
                    + rd data (i - 2) * Fin 0.114;
         right = rd data (i + 4) * Fin 0.299 + rd data (i + 5) * Fin 0.587
                    + rd data (i + 6) * Fin 0.114;
         laplacian = Math_abs (Fin 4 * center - top - bottom - left - right)
     in (sum + laplacian, count + 1))"

definition calculateAttentionScore :: "canvas \<Rightarrow> error + jsnum" where
  "calculateAttentionScore canvas =
     (if \<not> ctx canvas then Inr (Fin 0)
      else case getImageData canvas of
        Inl e \<Rightarrow> Inl e
      | Inr data \<Rightarrow>
          let w = int (width canvas);
              (sum, count) = for_by4 (w + 4) (int (length data) - w * 4 - 4)
                               (score_body data w) (Fin 0, 0)
          in Inr (if count > 0 then Math_min (sum / Fin (of_nat count) / Fin 50) (Fin 10)
                  else Fin 0))"

section \<open>applyRestorationFilter\<close>

definition restoration_body :: "jsnum \<Rightarrow> int \<Rightarrow> nat list \<Rightarrow> nat list" where
  "restoration_body strength i data =
     (let contrast = Fin 1 + strength * Fin 0.5;
          data = wr data i (Math_min (Fin 255) ((rd data i - Fin 128) * contrast + Fin 128));
          data = wr data (i + 1)
                   (Math_min (Fin 255) ((rd data (i + 1) - Fin 128) * contrast + Fin 128));
          data = wr data (i + 2)
                   (Math_min (Fin 255) ((rd data (i + 2) - Fin 128) * contrast + Fin 128))
      in if strength > Fin 0.3 then
           let blur = strength * Fin 0.2;
               data = wr data i (rd data i * (Fin 1 - blur) + Fin 128 * blur);
               data = wr data (i + 1) (rd data (i + 1) * (Fin 1 - blur) + Fin 128 * blur);
               data = wr data (i + 2) (rd data (i + 2) * (Fin 1 - blur) + Fin 128 * blur)
           in data
         else data)"

definition applyRestorationFilter :: "canvas \<Rightarrow> jsnum \<Rightarrow> error + canvas" where
  "applyRestorationFilter canvas strength =
     (if \<not> ctx canvas then Inr canvas
      else case getImageData canvas of
        Inl e \<Rightarrow> Inl e
      | Inr data \<Rightarrow>
          Inr (canvas\<lparr>pixels :=
                 for_by4 0 (int (length data)) (restoration_body strength) data\<rparr>))"

section \<open>applySuperResolution\<close>

text \<open>
  The canvas is resized and the browser's \<^verbatim>\<open>drawImage\<close> resamples the original image
  into it; what the resampling writes is the browser's, so it is the parameter
  \<open>drawImage\<close>, from the original canvas and the new dimensions to the new store. The
  sharpening loop then runs on the image data read back. The scale is a natural number,
  as the page that calls the function passes it (\<^verbatim>\<open>parseInt\<close> of a select box).
\<close>

definition sharpenKernel :: "int list" where
  "sharpenKernel = [0, -1, 0, -1, 5, -1, 0, -1, 0]"

definition convolve :: "nat list \<Rightarrow> int \<Rightarrow> int \<Rightarrow> int \<Rightarrow> jsnum" where
  "convolve data newWidth i channel =
     fst (fold (\<lambda>dy. fold (\<lambda>dx (sum, kernelIndex).
                  let pixelIndex = i + (dy * newWidth + dx) * 4 + channel
                  in (sum + rd data pixelIndex * Fin (of_int (sharpenKernel ! kernelIndex)),
                      kernelIndex + 1))
                [-1, 0, 1])
            [-1, 0, 1] (Fin 0, 0))"

definition sharpen_body :: "int \<Rightarrow> int \<Rightarrow> nat list \<Rightarrow> nat list" where
  "sharpen_body newWidth i data =
     fold (\<lambda>channel data.
             wr data (i + channel)
               (Math_max (Fin 0) (Math_min (Fin 255) (convolve data newWidth i channel))))
       [0, 1, 2] data"

definition applySuperResolution ::
  "(canvas \<Rightarrow> nat \<Rightarrow> nat \<Rightarrow> nat list) \<Rightarrow> canvas \<Rightarrow> nat \<Rightarrow> error + canvas" where
  "applySuperResolution drawImage canvas scale =
     (if \<not> ctx canvas then Inr canvas
      else case getImageData canvas of
        Inl e \<Rightarrow> Inl e
      | Inr originalImageData \<Rightarrow>
          let newWidth = width canvas * scale;
              newHeight = height canvas * scale;
              resized = canvas\<lparr>width := newWidth, height := newHeight,
                          pixels := drawImage canvas newWidth newHeight\<rparr>
          in case getImageData resized of
               Inl e \<Rightarrow> Inl e
             | Inr data \<Rightarrow>
                 Inr (resized\<lparr>pixels :=
                        for_by4 (int newWidth + 4)
                          (int (length data) - int newWidth * 4 - 4)
                          (sharpen_body (int newWidth)) data\<rparr>))"

section \<open>applyStyleTransfer\<close>

definition style_switch ::
  "string \<Rightarrow> jsnum \<Rightarrow> jsnum \<times> jsnum \<times> jsnum \<Rightarrow> jsnum \<times> jsnum \<times> jsnum" where
  "style_switch style intensity = (\<lambda>(r, g, b).
     if style = ''vintage'' then
       let r = Math_min (Fin 255)
                 ((r * Fin 0.393 + g * Fin 0.769 + b * Fin 0.189) * intensity
                    + r * (Fin 1 - intensity));
           g = Math_min (Fin 255)
                 ((r * Fin 0.349 + g * Fin 0.686 + b * Fin 0.168) * intensity
                    + g * (Fin 1 - intensity));
           b = Math_min (Fin 255)
                 ((r * Fin 0.272 + g * Fin 0.534 + b * Fin 0.131) * intensity
                    + b * (Fin 1 - intensity))
       in (r, g, b)
     else if style = ''cool'' then
       let r = r * (Fin 1 - intensity * Fin 0.2);
           g = g * (Fin 1 - intensity * Fin 0.1);
           b = Math_min (Fin 255) (b * (Fin 1 + intensity * Fin 0.3))
       in (r, g, b)
     else if style = ''warm'' then
       let r = Math_min (Fin 255) (r * (Fin 1 + intensity * Fin 0.3));
           g = Math_min (Fin 255) (g * (Fin 1 + intensity * Fin 0.1));
           b = b * (Fin 1 - intensity * Fin 0.2)
       in (r, g, b)
     else if style = ''vivid'' then
       let gray = Fin 0.299 * r + Fin 0.587 * g + Fin 0.114 * b;
           r = Math_min (Fin 255) (gray + (r - gray) * (Fin 1 + intensity));
           g = Math_min (Fin 255) (gray + (g - gray) * (Fin 1 + intensity));
           b = Math_min (Fin 255) (gray + (b - gray) * (Fin 1 + intensity))
       in (r, g, b)
     else if style = ''monochrome'' then
       let mono = Fin 0.299 * r + Fin 0.587 * g + Fin 0.114 * b;
           r = mono * (Fin 1 - intensity) + r * intensity;
           g = mono * (Fin 1 - intensity) + g * intensity;
           b = mono * (Fin 1 - intensity) + b * intensity
       in (r, g, b)
     else (r, g, b))"

definition style_body :: "string \<Rightarrow> jsnum \<Rightarrow> int \<Rightarrow> nat list \<Rightarrow> nat list" where
  "style_body style intensity i data =
     (let r = rd data i;
          g = rd data (i + 1);
          b = rd data (i + 2);
          (r, g, b) = style_switch style intensity (r, g, b);
          data = wr data i (Math_max (Fin 0) (Math_min (Fin 255) r));
          data = wr data (i + 1) (Math_max (Fin 0) (Math_min (Fin 255) g));
          data = wr data (i + 2) (Math_max (Fin 0) (Math_min (Fin 255) b))
      in data)"

definition applyStyleTransfer :: "canvas \<Rightarrow> string \<Rightarrow> jsnum \<Rightarrow> error + canvas" where
  "applyStyleTransfer canvas style intensity =
     (if \<not> ctx canvas then Inr canvas
      else case getImageData canvas of
        Inl e \<Rightarrow> Inl e
      | Inr data \<Rightarrow>
          Inr (canvas\<lparr>pixels :=
                 for_by4 0 (int (length data)) (style_body style intensity) data\<rparr>))"

section \<open>applyColorization\<close>

definition color_switch ::
  "string \<Rightarrow> jsnum \<Rightarrow> jsnum \<times> jsnum \<times> jsnum \<Rightarrow> jsnum \<times> jsnum \<times> jsnum" where
  "color_switch colorScheme intensity = (\<lambda>(r, g, b).
     let gray = Fin 0.299 * r + Fin 0.587 * g + Fin 0.114 * b;
         (newR, newG, newB) = (r, g, b)
     in if colorScheme = ''natural'' then
          (gray * (Fin 1 + intensity * Fin 0.2),
           gray * (Fin 1 + intensity * Fin 0.1),
           gray * (Fin 1 - intensity * Fin 0.1))
        else if colorScheme = ''cool'' then
          (gray * (Fin 1 - intensity * Fin 0.3),
           gray,
           gray * (Fin 1 + intensity * Fin 0.4))
        else if colorScheme = ''warm'' then
          (gray * (Fin 1 + intensity * Fin 0.4),
           gray * (Fin 1 + intensity * Fin 0.2),
           gray * (Fin 1 - intensity * Fin 0.2))
        else (newR, newG, newB))"

definition color_body :: "string \<Rightarrow> jsnum \<Rightarrow> int \<Rightarrow> nat list \<Rightarrow> nat list" where
  "color_body colorScheme intensity i data =
     (let r = rd data i;
          g = rd data (i + 1);
          b = rd data (i + 2);
          (newR, newG, newB) = color_switch colorScheme intensity (r, g, b);
          data = wr data i (Math_max (Fin 0) (Math_min (Fin 255) newR));
          data = wr data (i + 1) (Math_max (Fin 0) (Math_min (Fin 255) newG));
          data = wr data (i + 2) (Math_max (Fin 0) (Math_min (Fin 255) newB))
      in data)"

definition applyColorization :: "canvas \<Rightarrow> string \<Rightarrow> jsnum \<Rightarrow> error + canvas" where
  "applyColorization canvas colorScheme intensity =
     (if \<not> ctx canvas then Inr canvas
      else case getImageData canvas of
        Inl e \<Rightarrow> Inl e
      | Inr data \<Rightarrow>
          Inr (canvas\<lparr>pixels :=
                 for_by4 0 (int (length data)) (color_body colorScheme intensity) data\<rparr>))"

section \<open>Formulas of the specification\<close>

text \<open>What the final three stores of the style and colour loops put into the array.\<close>

definition store_clamped :: "jsnum \<Rightarrow> nat" where
  "store_clamped v = ToUint8Clamp (Math_max (Fin 0) (Math_min (Fin 255) v))"

section \<open>Binary64 arithmetic\<close>

text \<open>
  Where a theorem states the exact sample a filter stores, for every input, the rounding
  of each operation matters: a value that lands on a tie of the store is rounded to the
  even sample, and binary64 rounding can move it off the tie. For restore and for the
  style transfer the functions are therefore embedded a second time, over binary64
  numbers: NaN, the two infinities, or a real value. Each operation computes exactly and
  rounds the result to the nearest binary64 value, a tie to the even significand
  (\<open>round64\<close>), subnormal numbers and overflow to an infinity included. The sign of a
  zero is not modelled: no operation of the two functions can tell the zeros apart.
\<close>

datatype float64 = NaN64 | PosInf | NegInf | Num real

definition pow2 :: "int \<Rightarrow> real" where
  "pow2 k = (if 0 \<le> k then 2 ^ nat k else 1 / 2 ^ nat (- k))"

text \<open>The binary exponent of a nonzero real: the \<open>e\<close> with \<open>2^e \<le> |x| < 2^(e+1)\<close>.\<close>

definition expo :: "real \<Rightarrow> int" where
  "expo x = (let a = \<bar>x\<bar> in
     if 1 \<le> a then bitlen \<lfloor>a\<rfloor> - 1 else - bitlen (\<lceil>1 / a\<rceil> - 1))"

definition round_half_even :: "real \<Rightarrow> int" where
  "round_half_even x = (let f = \<lfloor>x\<rfloor> in
     if of_int f + 1 / 2 < x then f + 1
     else if x < of_int f + 1 / 2 then f
     else if even f then f else f + 1)"

text \<open>
  Rounding to binary64: 53 significant bits, so the spacing at exponent \<open>e\<close> is
  \<open>2^(e-52)\<close>; below \<open>2^(-1022)\<close> the spacing stays \<open>2^(-1074)\<close>; a result of magnitude
  \<open>2^1024\<close> is an infinity.
\<close>

definition round64 :: "real \<Rightarrow> float64" where
  "round64 x =
     (if x = 0 then Num 0
      else let e = max (expo x) (- 1022);
               ulp = pow2 (e - 52);
               y = of_int (round_half_even (x / ulp)) * ulp
           in if pow2 1024 \<le> y then PosInf
              else if y \<le> - pow2 1024 then NegInf
              else Num y)"

text \<open>A numeric literal of the source denotes the binary64 value nearest to it.\<close>

definition lit :: "real \<Rightarrow> float64" where
  "lit x = round64 x"

fun negate :: "float64 \<Rightarrow> float64" where
  "negate (Num x) = Num (- x)"
| "negate PosInf = NegInf"
| "negate NegInf = PosInf"
| "negate NaN64 = NaN64"

instantiation float64 :: "{plus, minus, times, ord}"
begin

fun plus_float64 :: "float64 \<Rightarrow> float64 \<Rightarrow> float64" where
  "plus_float64 (Num x) (Num y) = round64 (x + y)"
| "plus_float64 NaN64 _ = NaN64"
| "plus_float64 _ NaN64 = NaN64"
| "plus_float64 PosInf NegInf = NaN64"
| "plus_float64 NegInf PosInf = NaN64"
| "plus_float64 PosInf _ = PosInf"
| "plus_float64 _ PosInf = PosInf"
| "plus_float64 NegInf _ = NegInf"
| "plus_float64 _ NegInf = NegInf"

definition minus_float64 :: "float64 \<Rightarrow> float64 \<Rightarrow> float64" where
  "minus_float64 a b = a + negate b"

fun times_float64 :: "float64 \<Rightarrow> float64 \<Rightarrow> float64" where
  "times_float64 (Num x) (Num y) = round64 (x * y)"
| "times_float64 NaN64 _ = NaN64"
| "times_float64 _ NaN64 = NaN64"
| "times_float64 (Num x) PosInf = (if x = 0 then NaN64 else if 0 < x then PosInf else NegInf)"
| "times_float64 (Num x) NegInf = (if x = 0 then NaN64 else if 0 < x then NegInf else PosInf)"
| "times_float64 PosInf (Num y) = (if y = 0 then NaN64 else if 0 < y then PosInf else NegInf)"
| "times_float64 NegInf (Num y) = (if y = 0 then NaN64 else if 0 < y then NegInf else PosInf)"
| "times_float64 PosInf PosInf = PosInf"
| "times_float64 NegInf NegInf = PosInf"
| "times_float64 PosInf NegInf = NegInf"
| "times_float64 NegInf PosInf = NegInf"

fun less_float64 :: "float64 \<Rightarrow> float64 \<Rightarrow> bool" where
  "less_float64 (Num x) (Num y) = (x < y)"
| "less_float64 NaN64 _ = False"
| "less_float64 _ NaN64 = False"
| "less_float64 _ NegInf = False"
| "less_float64 PosInf _ = False"
| "less_float64 NegInf _ = True"
| "less_float64 _ PosInf = True"

fun less_eq_float64 :: "float64 \<Rightarrow> float64 \<Rightarrow> bool" where
  "less_eq_float64 (Num x) (Num y) = (x \<le> y)"
| "less_eq_float64 NaN64 _ = False"
| "less_eq_float64 _ NaN64 = False"
| "less_eq_float64 NegInf _ = True"
| "less_eq_float64 _ PosInf = True"
| "less_eq_float64 _ NegInf = False"
| "less_eq_float64 PosInf _ = False"

instance ..

end

fun Math_min64 :: "float64 \<Rightarrow> float64 \<Rightarrow> float64" where
  "Math_min64 NaN64 _ = NaN64"
| "Math_min64 _ NaN64 = NaN64"
| "Math_min64 a b = (if a < b then a else b)"

fun Math_max64 :: "float64 \<Rightarrow> float64 \<Rightarrow> float64" where
  "Math_max64 NaN64 _ = NaN64"
| "Math_max64 _ NaN64 = NaN64"
| "Math_max64 a b = (if a < b then b else a)"

fun ToUint8Clamp64 :: "float64 \<Rightarrow> nat" where
  "ToUint8Clamp64 NaN64 = 0"
| "ToUint8Clamp64 NegInf = 0"
| "ToUint8Clamp64 PosInf = 255"
| "ToUint8Clamp64 (Num x) = ToUint8Clamp (Fin x)"

definition rd64 :: "nat list \<Rightarrow> int \<Rightarrow> float64" where
  "rd64 data i =
     (if 0 \<le> i \<and> i < int (length data) then Num (real (data ! nat i)) else NaN64)"

definition wr64 :: "nat list \<Rightarrow> int \<Rightarrow> float64 \<Rightarrow> nat list" where
  "wr64 data i v =
     (if 0 \<le> i \<and> i < int (length data) then data[nat i := ToUint8Clamp64 v] else data)"

definition restoration_body64 :: "float64 \<Rightarrow> int \<Rightarrow> nat list \<Rightarrow> nat list" where
  "restoration_body64 strength i data =
     (let contrast = lit 1 + strength * lit 0.5;
          data = wr64 data i
                   (Math_min64 (lit 255) ((rd64 data i - lit 128) * contrast + lit 128));
          data = wr64 data (i + 1)
                   (Math_min64 (lit 255) ((rd64 data (i + 1) - lit 128) * contrast + lit 128));
          data = wr64 data (i + 2)
                   (Math_min64 (lit 255) ((rd64 data (i + 2) - lit 128) * contrast + lit 128))
      in if strength > lit 0.3 then
           let blur = strength * lit 0.2;
               data = wr64 data i (rd64 data i * (lit 1 - blur) + lit 128 * blur);
               data = wr64 data (i + 1) (rd64 data (i + 1) * (lit 1 - blur) + lit 128 * blur);
               data = wr64 data (i + 2) (rd64 data (i + 2) * (lit 1 - blur) + lit 128 * blur)
           in data
         else data)"

definition applyRestorationFilter64 :: "canvas \<Rightarrow> float64 \<Rightarrow> error + canvas" where
  "applyRestorationFilter64 canvas strength =
     (if \<not> ctx canvas then Inr canvas
      else case getImageData canvas of
        Inl e \<Rightarrow> Inl e
      | Inr data \<Rightarrow>
          Inr (canvas\<lparr>pixels :=
                 for_by4 0 (int (length data)) (restoration_body64 strength) data\<rparr>))"

definition style_switch64 ::
  "string \<Rightarrow> float64 \<Rightarrow> float64 \<times> float64 \<times> float64 \<Rightarrow> float64 \<times> float64 \<times> float64" where
  "style_switch64 style intensity = (\<lambda>(r, g, b).
     if style = ''vintage'' then
       let r = Math_min64 (lit 255)
                 ((r * lit 0.393 + g * lit 0.769 + b * lit 0.189) * intensity
                    + r * (lit 1 - intensity));
           g = Math_min64 (lit 255)
                 ((r * lit 0.349 + g * lit 0.686 + b * lit 0.168) * intensity
                    + g * (lit 1 - intensity));
           b = Math_min64 (lit 255)
                 ((r * lit 0.272 + g * lit 0.534 + b * lit 0.131) * intensity
                    + b * (lit 1 - intensity))
       in (r, g, b)
     else if style = ''cool'' then
       let r = r * (lit 1 - intensity * lit 0.2);
           g = g * (lit 1 - intensity * lit 0.1);
           b = Math_min64 (lit 255) (b * (lit 1 + intensity * lit 0.3))
       in (r, g, b)
     else if style = ''warm'' then
       let r = Math_min64 (lit 255) (r * (lit 1 + intensity * lit 0.3));
           g = Math_min64 (lit 255) (g * (lit 1 + intensity * lit 0.1));
           b = b * (lit 1 - intensity * lit 0.2)
       in (r, g, b)
     else if style = ''vivid'' then
       let gray = lit 0.299 * r + lit 0.587 * g + lit 0.114 * b;
           r = Math_min64 (lit 255) (gray + (r - gray) * (lit 1 + intensity));
           g = Math_min64 (lit 255) (gray + (g - gray) * (lit 1 + intensity));
           b = Math_min64 (lit 255) (gray + (b - gray) * (lit 1 + intensity))
       in (r, g, b)
     else if style = ''monochrome'' then
       let mono = lit 0.299 * r + lit 0.587 * g + lit 0.114 * b;
           r = mono * (lit 1 - intensity) + r * intensity;
           g = mono * (lit 1 - intensity) + g * intensity;
           b = mono * (lit 1 - intensity) + b * intensity
       in (r, g, b)
     else (r, g, b))"

definition style_body64 :: "string \<Rightarrow> float64 \<Rightarrow> int \<Rightarrow> nat list \<Rightarrow> nat list" where
  "style_body64 style intensity i data =
     (let r = rd64 data i;
          g = rd64 data (i + 1);
          b = rd64 data (i + 2);
          (r, g, b) = style_switch64 style intensity (r, g, b);
          data = wr64 data i (Math_max64 (lit 0) (Math_min64 (lit 255) r));
          data = wr64 data (i + 1) (Math_max64 (lit 0) (Math_min64 (lit 255) g));
          data = wr64 data (i + 2) (Math_max64 (lit 0) (Math_min64 (lit 255) b))
      in data)"

definition applyStyleTransfer64 :: "canvas \<Rightarrow> string \<Rightarrow> float64 \<Rightarrow> error + canvas" where
  "applyStyleTransfer64 canvas style intensity =
     (if \<not> ctx canvas then Inr canvas
      else case getImageData canvas of
        Inl e \<Rightarrow> Inl e
      | Inr data \<Rightarrow>
          Inr (canvas\<lparr>pixels :=
                 for_by4 0 (int (length data)) (style_body64 style intensity) data\<rparr>))"

text \<open>A number of the exact embedding, as a binary64 value; used for the samples read.\<close>

definition to64 :: "jsnum \<Rightarrow> float64" where
  "to64 v = (case v of NaN \<Rightarrow> NaN64 | Fin x \<Rightarrow> Num x)"

text \<open>What the final three stores of the style loop put into the array, in binary64.\<close>

definition store_clamped64 :: "float64 \<Rightarrow> nat" where
  "store_clamped64 v = ToUint8Clamp64 (Math_max64 (lit 0) (Math_min64 (lit 255) v))"

text \<open>
  The three sepia formulas of the vintage style, each as a function of the red, green and
  blue values it is given, so that a theorem can say which values each one receives.
\<close>

definition sepia_red :: "float64 \<Rightarrow> float64 \<Rightarrow> float64 \<Rightarrow> float64 \<Rightarrow> float64" where
  "sepia_red intensity r g b =
     Math_min64 (lit 255)
       ((r * lit 0.393 + g * lit 0.769 + b * lit 0.189) * intensity + r * (lit 1 - intensity))"

definition sepia_green :: "float64 \<Rightarrow> float64 \<Rightarrow> float64 \<Rightarrow> float64 \<Rightarrow> float64" where
  "sepia_green intensity r g b =
     Math_min64 (lit 255)
       ((r * lit 0.349 + g * lit 0.686 + b * lit 0.168) * intensity + g * (lit 1 - intensity))"

definition sepia_blue :: "float64 \<Rightarrow> float64 \<Rightarrow> float64 \<Rightarrow> float64 \<Rightarrow> float64" where
  "sepia_blue intensity r g b =
     Math_min64 (lit 255)
       ((r * lit 0.272 + g * lit 0.534 + b * lit 0.131) * intensity + b * (lit 1 - intensity))"

text \<open>
  The restoration formula as the specification words it, computed in binary64: the
  contrast stretch clamped to 0..255, then the blend toward 128 when the strength exceeds
  0.3, with no store in between.
\<close>

definition restore_claimed :: "float64 \<Rightarrow> nat \<Rightarrow> float64" where
  "restore_claimed strength v =
     (let v' = Math_max64 (lit 0)
                 (Math_min64 (lit 255)
                   ((Num (real v) - lit 128) * (lit 1 + lit 0.5 * strength) + lit 128))
      in if strength > lit 0.3
         then v' * (lit 1 - lit 0.2 * strength) + lit 128 * (lit 0.2 * strength)
         else v')"

text \<open>
  The restoration formula of the specification computed in binary64, with each of its two
  results stored as an 8-bit sample and the blend reading the stored sample back.
\<close>

definition restore_stored :: "float64 \<Rightarrow> nat \<Rightarrow> nat" where
  "restore_stored strength v =
     (let v' = ToUint8Clamp64
                 (Math_max64 (lit 0)
                   (Math_min64 (lit 255)
                     ((Num (real v) - lit 128) * (lit 1 + lit 0.5 * strength) + lit 128)))
      in if strength > lit 0.3
         then ToUint8Clamp64
                (Num (real v') * (lit 1 - lit 0.2 * strength) + lit 128 * (lit 0.2 * strength))
         else v')"

section \<open>The clamped array\<close>

lemma ToUint8Clamp_le: "ToUint8Clamp v \<le> 255"
proof (cases v)
  case NaN
  then show ?thesis by simp
next
  case (Fin x)
  show ?thesis
  proof (cases "x \<le> 0 \<or> 255 \<le> x")
    case True
    with Fin show ?thesis by auto
  next
    case False
    then have "0 < x" "x < 255" by auto
    then have "0 \<le> \<lfloor>x\<rfloor>" "\<lfloor>x\<rfloor> < 255" by (auto simp: floor_less_iff)
    then have "nat \<lfloor>x\<rfloor> \<le> 255" "nat (\<lfloor>x\<rfloor> + 1) \<le> 255" by linarith+
    with Fin show ?thesis by (simp add: Let_def)
  qed
qed

lemma ToUint8Clamp_sample: "v \<le> 255 \<Longrightarrow> ToUint8Clamp (Fin (real v)) = v"
  by (auto simp: Let_def)

lemma ToUint8Clamp_lower: "ToUint8Clamp (Fin (max 0 y)) = ToUint8Clamp (Fin y)"
  by (cases "y \<le> 0") (simp_all add: max_def)

lemma clamp_sample:
  "v \<le> 255 \<Longrightarrow> Math_max (Fin 0) (Math_min (Fin 255) (Fin (real v))) = Fin (real v)"
  by (simp add: min_absorb2 max_absorb2)

lemma store_clamped_sample: "v \<le> 255 \<Longrightarrow> store_clamped (Fin (real v)) = v"
  unfolding store_clamped_def by (simp only: clamp_sample ToUint8Clamp_sample)

lemma length_wr [simp]: "length (wr data i v) = length data"
  by (simp add: wr_def)

lemma nth_wr:
  "wr data i v ! j =
     (if 0 \<le> i \<and> i < int (length data) \<and> i = int j then ToUint8Clamp v else data ! j)"
  by (auto simp: wr_def nth_list_update)

lemma rd_wr:
  "rd (wr data i v) k =
     (if 0 \<le> i \<and> i < int (length data) \<and> k = i then Fin (real (ToUint8Clamp v))
      else rd data k)"
  by (auto simp: wr_def rd_def nth_list_update)

lemma rd_in_range: "j < length data \<Longrightarrow> rd data (int j) = Fin (real (data ! j))"
  by (simp add: rd_def)

lemma valid_buffer_nth: "valid_buffer data \<Longrightarrow> j < length data \<Longrightarrow> data ! j \<le> 255"
  by (simp add: valid_buffer_def list_all_length)

lemma valid_buffer_wr: "valid_buffer data \<Longrightarrow> valid_buffer (wr data i v)"
  by (auto simp: valid_buffer_def list_all_length nth_wr ToUint8Clamp_le)

lemma wr_rd_same:
  assumes "valid_buffer data"
  shows "wr data i (Math_max (Fin 0) (Math_min (Fin 255) (rd data i))) = data"
proof (cases "0 \<le> i \<and> i < int (length data)")
  case True
  then have "nat i < length data" by linarith
  then have "data ! nat i \<le> 255" using assms by (rule valid_buffer_nth [rotated])
  then have "ToUint8Clamp (Math_max (Fin 0) (Math_min (Fin 255) (rd data i))) = data ! nat i"
    using True by (simp add: rd_def clamp_sample ToUint8Clamp_sample del: ToUint8Clamp.simps
        Math_max.simps Math_min.simps)
  then show ?thesis using True by (simp add: wr_def)
next
  case False
  then show ?thesis by (auto simp: wr_def)
qed

section \<open>The loop\<close>

lemma for_by4_invariant:
  assumes "P s" and "\<And>i s. P s \<Longrightarrow> P (body i s)"
  shows "P (for_by4 i bound body s)"
  using assms
proof (induction i bound body s rule: for_by4.induct)
  case (1 i bound body s)
  show ?case
  proof (cases "i < bound")
    case True
    have "P (body i s)" using "1.prems" by blast
    then have "P (for_by4 (i + 4) bound body (body i s))"
      using "1.IH" [OF True] "1.prems"(2) by blast
    with True show ?thesis by (subst for_by4.simps) simp
  next
    case False
    then show ?thesis using "1.prems"(1) by (subst for_by4.simps) simp
  qed
qed

lemma for_by4_frame_below:
  assumes "\<And>i s j. int j < i \<or> i + 2 < int j \<Longrightarrow> body i s ! j = s ! j"
    and "int j < i"
  shows "for_by4 i bound body s ! j = s ! j"
  using assms
proof (induction i bound body s rule: for_by4.induct)
  case (1 i bound body s)
  show ?case
  proof (cases "i < bound")
    case True
    have "for_by4 (i + 4) bound body (body i s) ! j = body i s ! j"
      using "1.IH" [OF True] "1.prems" by simp
    also have "body i s ! j = s ! j" using "1.prems" by blast
    finally show ?thesis using True by (subst for_by4.simps) simp
  next
    case False
    then show ?thesis by (subst for_by4.simps) simp
  qed
qed

lemma pixel_of_index:
  fixes i :: int and j :: nat
  assumes "0 \<le> i" "i mod 4 = 0" "i \<le> int j" "int j \<le> i + 3"
  shows "int (4 * (j div 4)) = i" and "int (j mod 4) = int j - i"
proof -
  define k where "k = nat (i div 4)"
  have "i = 4 * (i div 4)" using assms(2) by (simp add: mod_eq_0_iff_dvd)
  moreover have "0 \<le> i div 4" using assms(1) by simp
  ultimately have i: "i = int (4 * k)" by (simp add: k_def)
  with assms(3,4) have "4 * k \<le> j" "j \<le> 4 * k + 3" by linarith+
  then have "j div 4 = k" "j mod 4 = j - 4 * k" by arith+
  with i \<open>4 * k \<le> j\<close> show "int (4 * (j div 4)) = i" and "int (j mod 4) = int j - i"
    by simp_all
qed

lemma alpha_outside_pixel:
  fixes i :: int and j :: nat
  assumes "0 \<le> i" "i mod 4 = 0" "j mod 4 = 3"
  shows "int j < i \<or> i + 2 < int j"
proof (rule ccontr)
  assume "\<not> (int j < i \<or> i + 2 < int j)"
  then have "i \<le> int j" "int j \<le> i + 3" "int j - i \<le> 2" by linarith+
  with pixel_of_index(2) [OF assms(1,2)] have "int (j mod 4) \<le> 2" by simp
  with assms(3) show False by simp
qed

lemma for_by4_alpha:
  assumes "\<And>i s j. int j < i \<or> i + 2 < int j \<Longrightarrow> body i s ! j = s ! j"
    and "0 \<le> i" "i mod 4 = 0" "j mod 4 = 3"
  shows "for_by4 i bound body s ! j = s ! j"
  using assms
proof (induction i bound body s rule: for_by4.induct)
  case (1 i bound body s)
  show ?case
  proof (cases "i < bound")
    case True
    have "for_by4 (i + 4) bound body (body i s) ! j = body i s ! j"
      using "1.IH" [OF True] "1.prems" by simp
    also have "body i s ! j = s ! j"
      using "1.prems"(1) alpha_outside_pixel [OF "1.prems"(2,3,4)] by blast
    finally show ?thesis using True by (subst for_by4.simps) simp
  next
    case False
    then show ?thesis by (subst for_by4.simps) simp
  qed
qed

lemma for_by4_pixelwise_aux:
  assumes len: "\<And>i s. length (body i s) = length s"
    and frame: "\<And>i s j. int j < i \<or> i + 2 < int j \<Longrightarrow> body i s ! j = s ! j"
    and char: "\<And>i s j. 0 \<le> i \<Longrightarrow> i \<le> int j \<Longrightarrow> int j \<le> i + 2 \<Longrightarrow> j < length s \<Longrightarrow>
                 body i s ! j = H (nat (int j - i)) (rd s i) (rd s (i + 1)) (rd s (i + 2))"
    and "0 \<le> i" "i mod 4 = 0" "length s = length s0"
    and agree: "\<forall>k. i \<le> int k \<longrightarrow> s ! k = s0 ! k"
    and "j < length s0" "i \<le> int j" "j mod 4 \<noteq> 3"
  shows "for_by4 i (int (length s0)) body s ! j =
           H (j mod 4) (rd s0 (int (4 * (j div 4)))) (rd s0 (int (4 * (j div 4)) + 1))
             (rd s0 (int (4 * (j div 4)) + 2))"
  using assms
proof (induction i "int (length s0)" body s rule: for_by4.induct)
  case (1 i body s)
  have lt: "i < int (length s0)" using "1.prems" by linarith
  have step: "for_by4 i (int (length s0)) body s = for_by4 (i + 4) (int (length s0)) body (body i s)"
    using lt by (subst for_by4.simps) simp
  have rd_eq: "rd s k = rd s0 k" if "i \<le> k" for k
    using that "1.prems"(6,7) by (auto simp: rd_def)
  show ?case
  proof (cases "int j \<le> i + 3")
    case True
    have p: "int (4 * (j div 4)) = i" and m: "int (j mod 4) = int j - i"
      using pixel_of_index [OF "1.prems"(4,5,9) True] by simp_all
    define r where "r = j mod 4"
    have "r < 4" "r \<noteq> 3" "int r = int j - i" using m "1.prems"(10) by (simp_all add: r_def)
    then have j2: "int j \<le> i + 2" by linarith
    have "for_by4 (i + 4) (int (length s0)) body (body i s) ! j = body i s ! j"
      using for_by4_frame_below [of body j "i + 4" "int (length s0)" "body i s"]
        "1.prems"(2) True j2 by auto
    also have "\<dots> = H (nat (int j - i)) (rd s i) (rd s (i + 1)) (rd s (i + 2))"
      using "1.prems"(3) [of i j s] "1.prems"(4,6,8,9) j2 by simp
    also have "nat (int j - i) = j mod 4" using m by linarith
    finally show ?thesis using step p rd_eq by simp
  next
    case False
    have "\<forall>k. i + 4 \<le> int k \<longrightarrow> body i s ! k = s0 ! k"
      using "1.prems"(2) [of _ i s] "1.prems"(7) by auto
    then have "for_by4 (i + 4) (int (length s0)) body (body i s) ! j =
           H (j mod 4) (rd s0 (int (4 * (j div 4)))) (rd s0 (int (4 * (j div 4)) + 1))
             (rd s0 (int (4 * (j div 4)) + 2))"
      using "1.hyps" [OF lt] "1.prems" False by auto
    then show ?thesis using step by simp
  qed
qed

lemma for_by4_pixelwise:
  assumes len: "\<And>i s. length (body i s) = length s"
    and frame: "\<And>i s j. int j < i \<or> i + 2 < int j \<Longrightarrow> body i s ! j = s ! j"
    and char: "\<And>i s j. 0 \<le> i \<Longrightarrow> i \<le> int j \<Longrightarrow> int j \<le> i + 2 \<Longrightarrow> j < length s \<Longrightarrow>
                 body i s ! j = H (nat (int j - i)) (rd s i) (rd s (i + 1)) (rd s (i + 2))"
    and "j < length s" "j mod 4 \<noteq> 3"
  shows "for_by4 0 (int (length s)) body s ! j =
           H (j mod 4) (rd s (int (4 * (j div 4)))) (rd s (int (4 * (j div 4)) + 1))
             (rd s (int (4 * (j div 4)) + 2))"
  using for_by4_pixelwise_aux [of body H 0 s s j] assms by simp

section \<open>The loop bodies\<close>

lemma length_restoration_body [simp]: "length (restoration_body strength i s) = length s"
  by (simp add: restoration_body_def Let_def)

lemma length_style_body [simp]: "length (style_body style intensity i s) = length s"
  by (simp add: style_body_def Let_def split: prod.split)

lemma length_color_body [simp]: "length (color_body colorScheme intensity i s) = length s"
  by (simp add: color_body_def Let_def split: prod.split)

lemma frame_restoration_body:
  "int j < i \<or> i + 2 < int j \<Longrightarrow> restoration_body strength i s ! j = s ! j"
  by (auto simp: restoration_body_def Let_def nth_wr)

lemma frame_style_body:
  "int j < i \<or> i + 2 < int j \<Longrightarrow> style_body style intensity i s ! j = s ! j"
  by (auto simp: style_body_def Let_def nth_wr split: prod.split)

lemma frame_color_body:
  "int j < i \<or> i + 2 < int j \<Longrightarrow> color_body colorScheme intensity i s ! j = s ! j"
  by (auto simp: color_body_def Let_def nth_wr split: prod.split)

lemma valid_restoration_body:
  "valid_buffer data \<Longrightarrow> valid_buffer (restoration_body strength i data)"
  by (simp add: restoration_body_def Let_def valid_buffer_wr)

lemma valid_style_body: "valid_buffer data \<Longrightarrow> valid_buffer (style_body style intensity i data)"
  by (simp add: style_body_def Let_def valid_buffer_wr split: prod.split)

lemma valid_color_body:
  "valid_buffer data \<Longrightarrow> valid_buffer (color_body colorScheme intensity i data)"
  by (simp add: color_body_def Let_def valid_buffer_wr split: prod.split)

lemma valid_sharpen_body: "valid_buffer data \<Longrightarrow> valid_buffer (sharpen_body newWidth i data)"
  by (simp add: sharpen_body_def valid_buffer_wr)

lemma char_style_body:
  assumes "0 \<le> i" "i \<le> int j" "int j \<le> i + 2" "j < length s"
  shows "style_body style intensity i s ! j =
           (case style_switch style intensity (rd s i, rd s (i + 1), rd s (i + 2)) of
              (r, g, b) \<Rightarrow>
                store_clamped
                  (if nat (int j - i) = 0 then r else if nat (int j - i) = 1 then g else b))"
proof -
  consider "int j = i" | "int j = i + 1" | "int j = i + 2" using assms by linarith
  then show ?thesis
  proof cases
    case 1
    with assms show ?thesis
      by (simp add: style_body_def store_clamped_def Let_def nth_wr split: prod.split)
  next
    case 2
    with assms show ?thesis
      by (simp add: style_body_def store_clamped_def Let_def nth_wr split: prod.split)
  next
    case 3
    with assms show ?thesis
      by (simp add: style_body_def store_clamped_def Let_def nth_wr split: prod.split)
  qed
qed

lemma char_color_body:
  assumes "0 \<le> i" "i \<le> int j" "int j \<le> i + 2" "j < length s"
  shows "color_body colorScheme intensity i s ! j =
           (case color_switch colorScheme intensity (rd s i, rd s (i + 1), rd s (i + 2)) of
              (r, g, b) \<Rightarrow>
                store_clamped
                  (if nat (int j - i) = 0 then r else if nat (int j - i) = 1 then g else b))"
proof -
  consider "int j = i" | "int j = i + 1" | "int j = i + 2" using assms by linarith
  then show ?thesis
  proof cases
    case 1
    with assms show ?thesis
      by (simp add: color_body_def store_clamped_def Let_def nth_wr split: prod.split)
  next
    case 2
    with assms show ?thesis
      by (simp add: color_body_def store_clamped_def Let_def nth_wr split: prod.split)
  next
    case 3
    with assms show ?thesis
      by (simp add: color_body_def store_clamped_def Let_def nth_wr split: prod.split)
  qed
qed

section \<open>Results of the exported functions\<close>

lemma applyRestorationFilter_Inr:
  assumes "applyRestorationFilter canvas strength = Inr c'"
  shows "pixels c' =
           (if ctx canvas
            then for_by4 0 (int (length (pixels canvas))) (restoration_body strength)
                   (pixels canvas)
            else pixels canvas)"
  using assms by (auto simp: applyRestorationFilter_def getImageData_def split: if_splits)

lemma applyStyleTransfer_Inr:
  assumes "applyStyleTransfer canvas style intensity = Inr c'"
  shows "pixels c' =
           (if ctx canvas
            then for_by4 0 (int (length (pixels canvas))) (style_body style intensity)
                   (pixels canvas)
            else pixels canvas)"
  using assms by (auto simp: applyStyleTransfer_def getImageData_def split: if_splits)

lemma applyColorization_Inr:
  assumes "applyColorization canvas colorScheme intensity = Inr c'"
  shows "pixels c' =
           (if ctx canvas
            then for_by4 0 (int (length (pixels canvas))) (color_body colorScheme intensity)
                   (pixels canvas)
            else pixels canvas)"
  using assms by (auto simp: applyColorization_def getImageData_def split: if_splits)

lemma applySuperResolution_Inr:
  assumes "applySuperResolution drawImage canvas scale = Inr c'"
  shows "pixels c' =
           (if ctx canvas
            then for_by4 (int (width canvas * scale) + 4)
                   (int (length (drawImage canvas (width canvas * scale)
                                   (height canvas * scale)))
                      - int (width canvas * scale) * 4 - 4)
                   (sharpen_body (int (width canvas * scale)))
                   (drawImage canvas (width canvas * scale) (height canvas * scale))
            else pixels canvas)"
  using assms unfolding applySuperResolution_def getImageData_def Let_def
  by (auto split: if_splits simp del: of_nat_mult)

text \<open>
  C1. Saturation: after restore, styleTransfer, colorize and the sharpening loop of
  upscale, every sample of a valid buffer lies in 0..255, whatever the parameters. For
  upscale the buffer is the one the browser's resampling produced; the score returns a
  number and has no buffer to return.
\<close>

theorem saturation_invariant:
  assumes "valid_buffer (pixels canvas)"
  shows "(\<forall>c'. applyRestorationFilter canvas strength = Inr c' \<longrightarrow> valid_buffer (pixels c'))
       \<and> (\<forall>c'. applyStyleTransfer canvas style intensity = Inr c' \<longrightarrow> valid_buffer (pixels c'))
       \<and> (\<forall>c'. applyColorization canvas colorScheme intensity = Inr c'
              \<longrightarrow> valid_buffer (pixels c'))
       \<and> (\<forall>c'. valid_buffer (drawImage canvas (width canvas * scale) (height canvas * scale))
              \<longrightarrow> applySuperResolution drawImage canvas scale = Inr c'
              \<longrightarrow> valid_buffer (pixels c'))"
proof (intro conjI allI impI)
  fix c'
  assume "applyRestorationFilter canvas strength = Inr c'"
  from applyRestorationFilter_Inr [OF this] show "valid_buffer (pixels c')"
    using assms for_by4_invariant [where P = valid_buffer, OF _ valid_restoration_body]
    by (simp split: if_splits)
next
  fix c'
  assume "applyStyleTransfer canvas style intensity = Inr c'"
  from applyStyleTransfer_Inr [OF this] show "valid_buffer (pixels c')"
    using assms for_by4_invariant [where P = valid_buffer, OF _ valid_style_body]
    by (simp split: if_splits)
next
  fix c'
  assume "applyColorization canvas colorScheme intensity = Inr c'"
  from applyColorization_Inr [OF this] show "valid_buffer (pixels c')"
    using assms for_by4_invariant [where P = valid_buffer, OF _ valid_color_body]
    by (simp split: if_splits)
next
  fix c'
  assume "valid_buffer (drawImage canvas (width canvas * scale) (height canvas * scale))"
    and "applySuperResolution drawImage canvas scale = Inr c'"
  from applySuperResolution_Inr [OF this(2)] this(1) show "valid_buffer (pixels c')"
    using assms for_by4_invariant [where P = valid_buffer, OF _ valid_sharpen_body]
    by (simp split: if_splits del: of_nat_mult)
qed

theorem saturation_invariant_witness:
  "valid_buffer [129, 0, 255, 255]
   \<and> (\<exists>c'. applyRestorationFilter
              \<lparr>width = 1, height = 1, ctx = True, pixels = [129, 0, 255, 255]\<rparr> (Fin 1) = Inr c'
            \<and> valid_buffer (pixels c'))
   \<and> (\<exists>c'. applyStyleTransfer
              \<lparr>width = 1, height = 1, ctx = True, pixels = [129, 0, 255, 255]\<rparr> ''vivid'' (Fin 1)
              = Inr c'
            \<and> valid_buffer (pixels c'))
   \<and> (\<exists>c'. applyColorization
              \<lparr>width = 1, height = 1, ctx = True, pixels = [129, 0, 255, 255]\<rparr> ''cool'' (Fin 1)
              = Inr c'
            \<and> valid_buffer (pixels c'))
   \<and> valid_buffer [129, 0, 255, 255, 7, 7, 7, 255]
   \<and> (\<exists>c'. applySuperResolution (\<lambda>c w h. [129, 0, 255, 255, 7, 7, 7, 255])
              \<lparr>width = 1, height = 1, ctx = True, pixels = [129, 0, 255, 255]\<rparr> 2 = Inr c'
            \<and> valid_buffer (pixels c'))"
proof -
  let ?c = "\<lparr>width = 1, height = 1, ctx = True, pixels = [129, 0, 255, 255]\<rparr>"
  let ?d = "\<lambda>(c::canvas) (w::nat) (h::nat). [129, 0, 255, 255, 7, 7, 7, 255::nat]"
  have v: "valid_buffer (pixels ?c)" and v2: "valid_buffer [129, 0, 255, 255, 7, 7, 7, 255]"
    by (simp_all add: valid_buffer_def)
  have r: "\<exists>c'. applyRestorationFilter ?c (Fin 1) = Inr c'"
    by (simp add: applyRestorationFilter_def getImageData_def)
  have s: "\<exists>c'. applyStyleTransfer ?c ''vivid'' (Fin 1) = Inr c'"
    by (simp add: applyStyleTransfer_def getImageData_def)
  have k: "\<exists>c'. applyColorization ?c ''cool'' (Fin 1) = Inr c'"
    by (simp add: applyColorization_def getImageData_def)
  have u: "\<exists>c'. applySuperResolution ?d ?c 2 = Inr c'"
    by (simp add: applySuperResolution_def getImageData_def Let_def)
  from saturation_invariant [OF v, where strength = "Fin 1" and style = "''vivid''"
      and intensity = "Fin 1" and colorScheme = "''cool''" and drawImage = ?d and scale = 2]
    v v2 r s k u
  show ?thesis by auto
qed

text \<open>
  C10. Alpha is never written: after restore, styleTransfer and colorize every sample
  whose index is 3 modulo 4 is the one the buffer had, for all parameters, and the buffer
  keeps its length.
\<close>

theorem alpha_untouched:
  assumes "j < length (pixels canvas)" and "j mod 4 = 3"
  shows "(\<forall>c'. applyRestorationFilter canvas strength = Inr c'
            \<longrightarrow> length (pixels c') = length (pixels canvas) \<and> pixels c' ! j = pixels canvas ! j)
       \<and> (\<forall>c'. applyStyleTransfer canvas style intensity = Inr c'
            \<longrightarrow> length (pixels c') = length (pixels canvas) \<and> pixels c' ! j = pixels canvas ! j)
       \<and> (\<forall>c'. applyColorization canvas colorScheme intensity = Inr c'
            \<longrightarrow> length (pixels c') = length (pixels canvas) \<and> pixels c' ! j = pixels canvas ! j)"
proof (intro conjI allI impI)
  fix c'
  assume a: "applyRestorationFilter canvas strength = Inr c'"
  show "length (pixels c') = length (pixels canvas)"
    using applyRestorationFilter_Inr [OF a]
      for_by4_invariant [where P = "\<lambda>t. length t = length (pixels canvas)"
        and body = "restoration_body strength"]
    by (simp split: if_splits)
  show "pixels c' ! j = pixels canvas ! j"
    using applyRestorationFilter_Inr [OF a]
      for_by4_alpha [where body = "restoration_body strength" and i = 0 and j = j,
        OF frame_restoration_body] assms(2)
    by (simp split: if_splits)
next
  fix c'
  assume a: "applyStyleTransfer canvas style intensity = Inr c'"
  show "length (pixels c') = length (pixels canvas)"
    using applyStyleTransfer_Inr [OF a]
      for_by4_invariant [where P = "\<lambda>t. length t = length (pixels canvas)"
        and body = "style_body style intensity"]
    by (simp split: if_splits)
  show "pixels c' ! j = pixels canvas ! j"
    using applyStyleTransfer_Inr [OF a]
      for_by4_alpha [where body = "style_body style intensity" and i = 0 and j = j,
        OF frame_style_body] assms(2)
    by (simp split: if_splits)
next
  fix c'
  assume a: "applyColorization canvas colorScheme intensity = Inr c'"
  show "length (pixels c') = length (pixels canvas)"
    using applyColorization_Inr [OF a]
      for_by4_invariant [where P = "\<lambda>t. length t = length (pixels canvas)"
        and body = "color_body colorScheme intensity"]
    by (simp split: if_splits)
  show "pixels c' ! j = pixels canvas ! j"
    using applyColorization_Inr [OF a]
      for_by4_alpha [where body = "color_body colorScheme intensity" and i = 0 and j = j,
        OF frame_color_body] assms(2)
    by (simp split: if_splits)
qed

theorem alpha_untouched_witness:
  "(3::nat) < length [40, 90, 200, 77] \<and> (3::nat) mod 4 = 3
   \<and> (\<exists>c'. applyRestorationFilter
              \<lparr>width = 1, height = 1, ctx = True, pixels = [40, 90, 200, 77]\<rparr> (Fin 1) = Inr c'
            \<and> pixels c' ! 3 = 77)
   \<and> (\<exists>c'. applyStyleTransfer
              \<lparr>width = 1, height = 1, ctx = True, pixels = [40, 90, 200, 77]\<rparr> ''vintage''
              (Fin 1) = Inr c'
            \<and> pixels c' ! 3 = 77)
   \<and> (\<exists>c'. applyColorization
              \<lparr>width = 1, height = 1, ctx = True, pixels = [40, 90, 200, 77]\<rparr> ''natural''
              (Fin 1) = Inr c'
            \<and> pixels c' ! 3 = 77)"
proof -
  let ?c = "\<lparr>width = 1, height = 1, ctx = True, pixels = [40, 90, 200, 77]\<rparr>"
  have j: "3 < length (pixels ?c)" "(3::nat) mod 4 = 3" by simp_all
  have r: "\<exists>c'. applyRestorationFilter ?c (Fin 1) = Inr c'"
    by (simp add: applyRestorationFilter_def getImageData_def)
  have s: "\<exists>c'. applyStyleTransfer ?c ''vintage'' (Fin 1) = Inr c'"
    by (simp add: applyStyleTransfer_def getImageData_def)
  have k: "\<exists>c'. applyColorization ?c ''natural'' (Fin 1) = Inr c'"
    by (simp add: applyColorization_def getImageData_def)
  from alpha_untouched [OF j, where strength = "Fin 1" and style = "''vintage''"
      and intensity = "Fin 1" and colorScheme = "''natural''"] r s k
  show ?thesis by auto
qed

lemma style_switch_unknown:
  assumes "style \<notin> {''vintage'', ''cool'', ''warm'', ''vivid'', ''monochrome''}"
  shows "style_switch style intensity (r, g, b) = (r, g, b)"
  using assms by (simp add: style_switch_def)

lemma style_body_unknown:
  assumes "style \<notin> {''vintage'', ''cool'', ''warm'', ''vivid'', ''monochrome''}"
    and "valid_buffer s"
  shows "style_body style intensity i s = s"
  unfolding style_body_def Let_def style_switch_unknown [OF assms(1)]
  by (simp add: wr_rd_same [OF assms(2)])

text \<open>
  C9. A style string outside vintage, cool, warm, vivid and monochrome falls through the
  switch, and the final clamped stores write back what was read: the buffer is unchanged,
  for every intensity.
\<close>

theorem unknown_style_unchanged:
  assumes "style \<notin> {''vintage'', ''cool'', ''warm'', ''vivid'', ''monochrome''}"
    and "valid_buffer (pixels canvas)"
    and "applyStyleTransfer canvas style intensity = Inr c'"
  shows "pixels c' = pixels canvas"
proof -
  have "for_by4 0 (int (length (pixels canvas))) (style_body style intensity) (pixels canvas)
          = pixels canvas"
    using for_by4_invariant [where P = "\<lambda>t. t = pixels canvas"
        and body = "style_body style intensity" and s = "pixels canvas"]
      style_body_unknown [OF assms(1,2)]
    by simp
  with applyStyleTransfer_Inr [OF assms(3)] show ?thesis by (simp split: if_splits)
qed

theorem unknown_style_unchanged_witness:
  "''sepia'' \<notin> {''vintage'', ''cool'', ''warm'', ''vivid'', ''monochrome''}
   \<and> valid_buffer [40, 90, 200, 77]
   \<and> (\<exists>c'. applyStyleTransfer
              \<lparr>width = 1, height = 1, ctx = True, pixels = [40, 90, 200, 77]\<rparr> ''sepia''
              (Fin 1) = Inr c'
            \<and> pixels c' = [40, 90, 200, 77])"
proof -
  let ?c = "\<lparr>width = 1, height = 1, ctx = True, pixels = [40, 90, 200, 77]\<rparr>"
  have n: "''sepia'' \<notin> {''vintage'', ''cool'', ''warm'', ''vivid'', ''monochrome''}" by simp
  have v: "valid_buffer (pixels ?c)" by (simp add: valid_buffer_def)
  obtain c' where c: "applyStyleTransfer ?c ''sepia'' (Fin 1) = Inr c'"
    by (simp add: applyStyleTransfer_def getImageData_def)
  from unknown_style_unchanged [OF n v c] n v c show ?thesis by auto
qed

lemma pixel_channel_rd:
  assumes "j < length s" and "j mod 4 \<noteq> 3"
  shows "(if j mod 4 = 0 then rd s (int (4 * (j div 4)))
          else if j mod 4 = 1 then rd s (int (4 * (j div 4)) + 1)
          else rd s (int (4 * (j div 4)) + 2)) = Fin (real (s ! j))"
proof -
  define q where "q = j div 4"
  define r where "r = j mod 4"
  have j: "j = 4 * q + r" by (simp add: q_def r_def)
  have "r < 4" by (simp add: r_def)
  with assms(2) consider "r = 0" | "r = 1" | "r = 2" unfolding r_def [symmetric] by linarith
  then show ?thesis
  proof cases
    case 1
    then have "int (4 * q) = int j" using j by simp
    with 1 show ?thesis
      unfolding q_def [symmetric] r_def [symmetric] using rd_in_range [OF assms(1)] by simp
  next
    case 2
    then have "int (4 * q) + 1 = int j" using j by simp
    with 2 show ?thesis
      unfolding q_def [symmetric] r_def [symmetric] using rd_in_range [OF assms(1)] by simp
  next
    case 3
    then have "int (4 * q) + 2 = int j" using j by simp
    with 3 show ?thesis
      unfolding q_def [symmetric] r_def [symmetric] using rd_in_range [OF assms(1)] by simp
  qed
qed

lemma style_loop_sample:
  assumes "j < length s" and "j mod 4 \<noteq> 3"
  shows "for_by4 0 (int (length s)) (style_body style intensity) s ! j
           = (case style_switch style intensity
                     (rd s (int (4 * (j div 4))), rd s (int (4 * (j div 4)) + 1),
                      rd s (int (4 * (j div 4)) + 2)) of
                (r, g, b) \<Rightarrow>
                  store_clamped (if j mod 4 = 0 then r else if j mod 4 = 1 then g else b))"
  by (rule for_by4_pixelwise
        [where H = "\<lambda>c r g b. case style_switch style intensity (r, g, b) of
                      (r, g, b) \<Rightarrow> store_clamped (if c = 0 then r else if c = 1 then g else b)",
          OF length_style_body frame_style_body char_style_body assms])

lemma color_loop_sample:
  assumes "j < length s" and "j mod 4 \<noteq> 3"
  shows "for_by4 0 (int (length s)) (color_body colorScheme intensity) s ! j
           = (case color_switch colorScheme intensity
                     (rd s (int (4 * (j div 4))), rd s (int (4 * (j div 4)) + 1),
                      rd s (int (4 * (j div 4)) + 2)) of
                (r, g, b) \<Rightarrow>
                  store_clamped (if j mod 4 = 0 then r else if j mod 4 = 1 then g else b))"
  by (rule for_by4_pixelwise
        [where H = "\<lambda>c r g b. case color_switch colorScheme intensity (r, g, b) of
                      (r, g, b) \<Rightarrow> store_clamped (if c = 0 then r else if c = 1 then g else b)",
          OF length_color_body frame_color_body char_color_body assms])

lemma aligned_pixel:
  fixes p c :: nat
  assumes "p mod 4 = 0" and "c < 4"
  shows "4 * ((p + c) div 4) = p" and "(p + c) mod 4 = c"
proof -
  obtain k where k: "p = 4 * k" using assms(1) by (auto simp: mod_eq_0_iff_dvd)
  show "4 * ((p + c) div 4) = p" and "(p + c) mod 4 = c"
    unfolding k using assms(2) by simp_all
qed

lemma style_loop_pixel:
  assumes "p mod 4 = 0" and "p + 2 < length s" and "c \<le> 2"
  shows "for_by4 0 (int (length s)) (style_body style intensity) s ! (p + c)
           = (case style_switch style intensity
                     (Fin (real (s ! p)), Fin (real (s ! (p + 1))), Fin (real (s ! (p + 2)))) of
                (r, g, b) \<Rightarrow> store_clamped (if c = 0 then r else if c = 1 then g else b))"
proof -
  have c: "c < 4" using assms(3) by simp
  have j: "p + c < length s" "(p + c) mod 4 \<noteq> 3"
    using assms(2,3) aligned_pixel(2) [OF assms(1) c] by simp_all
  have r0: "rd s (int p) = Fin (real (s ! p))"
    using rd_in_range [of p s] assms(2) by simp
  have r1: "rd s (int p + 1) = Fin (real (s ! (p + 1)))"
    using rd_in_range [of "p + 1" s] assms(2) by (simp add: add.commute)
  have r2: "rd s (int p + 2) = Fin (real (s ! (p + 2)))"
    using rd_in_range [of "p + 2" s] assms(2) by (simp add: add.commute)
  show ?thesis
    by (simp only: style_loop_sample [OF j] aligned_pixel [OF assms(1) c] r0 r1 r2)
qed

lemma color_loop_pixel:
  assumes "p mod 4 = 0" and "p + 2 < length s" and "c \<le> 2"
  shows "for_by4 0 (int (length s)) (color_body colorScheme intensity) s ! (p + c)
           = (case color_switch colorScheme intensity
                     (Fin (real (s ! p)), Fin (real (s ! (p + 1))), Fin (real (s ! (p + 2)))) of
                (r, g, b) \<Rightarrow> store_clamped (if c = 0 then r else if c = 1 then g else b))"
proof -
  have c: "c < 4" using assms(3) by simp
  have j: "p + c < length s" "(p + c) mod 4 \<noteq> 3"
    using assms(2,3) aligned_pixel(2) [OF assms(1) c] by simp_all
  have r0: "rd s (int p) = Fin (real (s ! p))"
    using rd_in_range [of p s] assms(2) by simp
  have r1: "rd s (int p + 1) = Fin (real (s ! (p + 1)))"
    using rd_in_range [of "p + 1" s] assms(2) by (simp add: add.commute)
  have r2: "rd s (int p + 2) = Fin (real (s ! (p + 2)))"
    using rd_in_range [of "p + 2" s] assms(2) by (simp add: add.commute)
  show ?thesis
    by (simp only: color_loop_sample [OF j] aligned_pixel [OF assms(1) c] r0 r1 r2)
qed

section \<open>Propagation of NaN\<close>

lemma NaN_absorbs [simp]:
  "x + NaN = NaN" "NaN + x = NaN" "x - NaN = NaN" "NaN - x = NaN" "x * NaN = NaN"
  "NaN * x = NaN" "x / NaN = NaN" "NaN / x = NaN" "Math_min x NaN = NaN" "Math_min NaN x = NaN"
  "Math_max x NaN = NaN" "Math_max NaN x = NaN"
  by (cases x; simp)+

lemma length_concat_replicate: "length (concat (replicate n xs)) = n * length xs"
  by (induction n) simp_all

lemma nth_concat_replicate:
  "k < n * length xs \<Longrightarrow> concat (replicate n xs) ! k = xs ! (k mod length xs)"
proof (induction n arbitrary: k)
  case 0
  then show ?case by simp
next
  case (Suc n)
  show ?case
  proof (cases "k < length xs")
    case True
    then show ?thesis by (simp add: nth_append)
  next
    case False
    then have "k - length xs < n * length xs" using Suc.prems by simp
    from Suc.IH [OF this] False show ?thesis by (simp add: nth_append le_mod_geq)
  qed
qed

lemma score_body_top_outside:
  assumes "2 \<le> w"
  shows "score_body data w (w + 4) (s, c) = (NaN, c + 1)"
proof -
  have "rd data (w + 4 - w * 4) = NaN" using assms by (simp add: rd_def)
  then show ?thesis by (simp add: score_body_def Let_def)
qed

lemma score_body_NaN: "score_body data w i (NaN, c) = (NaN, c + 1)"
  by (simp add: score_body_def Let_def)

lemma score_loop_NaN:
  "\<exists>c'. for_by4 i bound (score_body data w) (NaN, Suc c) = (NaN, Suc c')"
  by (rule for_by4_invariant [where P = "\<lambda>t. \<exists>c'. t = (NaN, Suc c')"])
    (auto simp: score_body_NaN)

lemma score_NaN:
  assumes "ctx canvas" and "2 \<le> width canvas" and "0 < height canvas"
    and "int (width canvas) + 4 < int (length (pixels canvas)) - int (width canvas) * 4 - 4"
  shows "calculateAttentionScore canvas = Inr NaN"
proof -
  let ?w = "int (width canvas)"
  let ?b = "int (length (pixels canvas)) - ?w * 4 - 4"
  have "for_by4 (?w + 4) ?b (score_body (pixels canvas) ?w) (Fin 0, 0)
          = for_by4 (?w + 4 + 4) ?b (score_body (pixels canvas) ?w) (NaN, Suc 0)"
    using assms(2,4) by (subst for_by4.simps) (simp add: score_body_top_outside)
  with score_loop_NaN [of "?w + 4 + 4" ?b "pixels canvas" ?w 0]
  obtain c' where "for_by4 (?w + 4) ?b (score_body (pixels canvas) ?w) (Fin 0, 0)
                     = (NaN, Suc c')"
    by auto
  then show ?thesis
    using assms(1,2,3) by (simp add: calculateAttentionScore_def getImageData_def)
qed

text \<open>
  C3 fails on the code: the loop starts at index \<open>width + 4\<close>, not at the second pixel of
  the second row. On a 3 by 3 image whose only interior pixel is white on black it reads
  above the array and returns NaN; on a 1 by 4 image, which has no interior pixel, it runs
  once on an unaligned triple and returns 10.
\<close>

theorem score_not_interior_laplacian:
  "calculateAttentionScore
     \<lparr>width = 3, height = 3, ctx = True,
      pixels = [0, 0, 0, 255, 0, 0, 0, 255, 0, 0, 0, 255,
                0, 0, 0, 255, 255, 255, 255, 255, 0, 0, 0, 255,
                0, 0, 0, 255, 0, 0, 0, 255, 0, 0, 0, 255]\<rparr> = Inr NaN
   \<and> calculateAttentionScore
     \<lparr>width = 1, height = 4, ctx = True,
      pixels = [0, 0, 0, 255, 255, 255, 255, 255, 0, 0, 0, 255, 0, 0, 0, 255]\<rparr> = Inr (Fin 10)"
proof
  show "calculateAttentionScore
     \<lparr>width = 3, height = 3, ctx = True,
      pixels = [0, 0, 0, 255, 0, 0, 0, 255, 0, 0, 0, 255,
                0, 0, 0, 255, 255, 255, 255, 255, 0, 0, 0, 255,
                0, 0, 0, 255, 0, 0, 0, 255, 0, 0, 0, 255]\<rparr> = Inr NaN"
    by (rule score_NaN) simp_all
  show "calculateAttentionScore
     \<lparr>width = 1, height = 4, ctx = True,
      pixels = [0, 0, 0, 255, 255, 255, 255, 255, 0, 0, 0, 255, 0, 0, 0, 255]\<rparr> = Inr (Fin 10)"
    by (simp add: calculateAttentionScore_def getImageData_def for_by4.simps score_body_def
        rd_def Let_def)
qed

text \<open>
  C8 fails on the code: on a flat 3 by 3 image the first iteration reads the row above
  the image, outside the array, and the score is NaN, not 0.
\<close>

theorem score_flat_is_NaN:
  "calculateAttentionScore
     \<lparr>width = 3, height = 3, ctx = True, pixels = concat (replicate 9 [10, 20, 30, 255])\<rparr>
   = Inr NaN"
  by (rule score_NaN) (simp_all add: length_concat_replicate)

section \<open>Uniform images\<close>

lemma color_loop_uniform:
  assumes "color_switch colorScheme intensity (Fin (real r), Fin (real g), Fin (real b))
             = (r', g', b')"
  shows "for_by4 0 (int (length (concat (replicate n [r, g, b, a]))))
           (color_body colorScheme intensity) (concat (replicate n [r, g, b, a]))
         = concat (replicate n [store_clamped r', store_clamped g', store_clamped b', a])"
    (is "?out = ?exp")
proof (rule nth_equalityI)
  let ?s = "concat (replicate n [r, g, b, a])"
  have len: "length ?out = length ?s"
    by (rule for_by4_invariant [where P = "\<lambda>t. length t = length ?s"]) simp_all
  show "length ?out = length ?exp" using len by (simp add: length_concat_replicate)
  fix j
  assume "j < length ?out"
  then have j: "j < n * 4" using len by (simp add: length_concat_replicate)
  define p where "p = 4 * (j div 4)"
  define c where "c = j mod 4"
  have jp: "j = p + c" and c4: "c < 4" and p4: "p mod 4 = 0" and pn: "p + 3 < n * 4"
    using j by (simp_all add: p_def c_def) arith
  have s: "?s ! p = r" "?s ! (p + 1) = g" "?s ! (p + 2) = b" "?s ! (p + 3) = a"
    using pn aligned_pixel [OF p4, of 0] aligned_pixel [OF p4, of 1]
      aligned_pixel [OF p4, of 2] aligned_pixel [OF p4, of 3]
    by (simp_all add: nth_concat_replicate)
  have e: "?exp ! j = [store_clamped r', store_clamped g', store_clamped b', a] ! c"
    using j by (simp add: nth_concat_replicate c_def)
  show "?out ! j = ?exp ! j"
  proof (cases "c = 3")
    case True
    then have "?out ! j = ?s ! j"
      using for_by4_alpha [where body = "color_body colorScheme intensity" and i = 0
          and j = j, OF frame_color_body] by (simp add: c_def)
    with True s(4) e show ?thesis by (simp add: jp)
  next
    case False
    with c4 have c2: "c \<le> 2" by simp
    have "p + 2 < length ?s" using pn by (simp add: length_concat_replicate)
    from color_loop_pixel [OF p4 this c2, of colorScheme intensity]
    have o: "?out ! j = store_clamped (if c = 0 then r' else if c = 1 then g' else b')"
      unfolding jp s assms by simp
    from c2 consider "c = 0" | "c = 1" | "c = 2" by linarith
    then show ?thesis
    proof cases
      case 1
      with o e show ?thesis by simp
    next
      case 2
      with o e show ?thesis by simp
    next
      case 3
      with o e show ?thesis by simp
    qed
  qed
qed

lemma colorize_warm_gray_loop:
  "for_by4 0 (int (length (concat (replicate 16 [128, 128, 128, 255::nat]))))
     (color_body ''warm'' (Fin 0.5)) (concat (replicate 16 [128, 128, 128, 255]))
   = concat (replicate 16 [154, 141, 115, 255])"
proof -
  have sw: "color_switch ''warm'' (Fin 0.5) (Fin (real 128), Fin (real 128), Fin (real 128))
              = (Fin 153.6, Fin 140.8, Fin 115.2)"
    by (simp add: color_switch_def Let_def)
  have st: "store_clamped (Fin 153.6) = 154" "store_clamped (Fin 140.8) = 141"
    "store_clamped (Fin 115.2) = 115"
    by (simp_all add: store_clamped_def)
  have "for_by4 0 (int (length (concat (replicate 16 [128, 128, 128, 255::nat]))))
          (color_body ''warm'' (Fin 0.5)) (concat (replicate 16 [128, 128, 128, 255]))
        = concat (replicate 16 [store_clamped (Fin 153.6), store_clamped (Fin 140.8),
                                store_clamped (Fin 115.2), 255])"
    by (rule color_loop_uniform [OF sw])
  then show ?thesis unfolding st .
qed

text \<open>
  C5, as the code has it. On the 4 by 4 mid-gray image, colorize with scheme warm and
  intensity 0.5 gives a uniform image whose every pixel is (154, 141, 115, 255): red is
  above 128 and blue below, and green is raised to 141, because the warm scheme
  multiplies the luma by \<open>1 + 0.2 * intensity\<close> for green.
\<close>

theorem colorize_warm_gray:
  "applyColorization
     \<lparr>width = 4, height = 4, ctx = True, pixels = concat (replicate 16 [128, 128, 128, 255])\<rparr>
     ''warm'' (Fin 0.5)
   = Inr \<lparr>width = 4, height = 4, ctx = True,
          pixels = concat (replicate 16 [154, 141, 115, 255])\<rparr>"
  using colorize_warm_gray_loop unfolding applyColorization_def getImageData_def by simp

text \<open>C5 as stated fails: the green sample of the first pixel is 141, not 128.\<close>

theorem colorize_warm_green_counterexample:
  "applyColorization
     \<lparr>width = 4, height = 4, ctx = True, pixels = concat (replicate 16 [128, 128, 128, 255])\<rparr>
     ''warm'' (Fin 0.5)
   = Inr \<lparr>width = 4, height = 4, ctx = True,
          pixels = concat (replicate 16 [154, 141, 115, 255])\<rparr>
   \<and> concat (replicate 16 [154, 141, 115, 255::nat]) ! 1 = 141
   \<and> (141::nat) \<noteq> 128"
proof -
  have "concat (replicate 16 [154, 141, 115, 255::nat]) ! 1 = 141"
    by (simp add: nth_concat_replicate)
  then show ?thesis
    using colorize_warm_gray_loop unfolding applyColorization_def getImageData_def by simp
qed

section \<open>Zero intensity\<close>

lemma style_switch_zero:
  assumes "style \<in> {''vintage'', ''cool'', ''warm'', ''vivid''}"
    and "r \<le> 255" "g \<le> 255" "b \<le> 255"
  shows "style_switch style (Fin 0) (Fin (real r), Fin (real g), Fin (real b))
           = (Fin (real r), Fin (real g), Fin (real b))"
  using assms by (auto simp: style_switch_def Let_def min_absorb2 algebra_simps)

lemma style_zero_intensity_unchanged:
  assumes "style \<in> {''vintage'', ''cool'', ''warm'', ''vivid''}"
    and "valid_buffer (pixels canvas)" and "length (pixels canvas) mod 4 = 0"
    and "applyStyleTransfer canvas style (Fin 0) = Inr c'"
  shows "pixels c' = pixels canvas"
proof (cases "ctx canvas")
  case False
  with applyStyleTransfer_Inr [OF assms(4)] show ?thesis by simp
next
  case True
  let ?s = "pixels canvas"
  let ?out = "for_by4 0 (int (length ?s)) (style_body style (Fin 0)) ?s"
  have out: "pixels c' = ?out" using applyStyleTransfer_Inr [OF assms(4)] True by simp
  have "?out = ?s"
  proof (rule nth_equalityI)
    show len: "length ?out = length ?s"
      by (rule for_by4_invariant [where P = "\<lambda>t. length t = length ?s"]) simp_all
    fix j
    assume "j < length ?out"
    then have j: "j < length ?s" using len by simp
    define p where "p = 4 * (j div 4)"
    define c where "c = j mod 4"
    obtain m where m: "length ?s = 4 * m" using assms(3) by (auto simp: mod_eq_0_iff_dvd)
    have jp: "j = p + c" and c4: "c < 4" and p4: "p mod 4 = 0" and pn: "p + 3 < length ?s"
      using j unfolding m by (simp_all add: p_def c_def) arith
    show "?out ! j = ?s ! j"
    proof (cases "c = 3")
      case True
      then show ?thesis
        using for_by4_alpha [where body = "style_body style (Fin 0)" and i = 0
            and j = j, OF frame_style_body] by (simp add: c_def)
    next
      case False
      with c4 have c2: "c \<le> 2" by simp
      have v: "?s ! p \<le> 255" "?s ! (p + 1) \<le> 255" "?s ! (p + 2) \<le> 255"
        using pn valid_buffer_nth [OF assms(2)] by simp_all
      have p2: "p + 2 < length ?s" using pn by simp
      have o: "?out ! j = store_clamped (if c = 0 then Fin (real (?s ! p))
                 else if c = 1 then Fin (real (?s ! (p + 1))) else Fin (real (?s ! (p + 2))))"
        using style_loop_pixel [OF p4 p2 c2, of style "Fin 0"]
        unfolding jp style_switch_zero [OF assms(1) v] by simp
      from c2 consider "c = 0" | "c = 1" | "c = 2" by linarith
      then show ?thesis
      proof cases
        case 1
        with o v show ?thesis by (simp add: jp store_clamped_sample)
      next
        case 2
        with o v show ?thesis by (simp add: jp store_clamped_sample)
      next
        case 3
        with o v show ?thesis by (simp add: jp store_clamped_sample)
      qed
    qed
  qed
  with out show ?thesis by simp
qed

text \<open>
  C2 fails on the code for monochrome: at intensity 0 the branch writes the luma to all
  three channels, so pure red becomes the gray 76. (The other four styles leave a buffer
  of whole pixels unchanged at intensity 0, lemma \<open>style_zero_intensity_unchanged\<close>.)
\<close>

theorem monochrome_zero_intensity_grays:
  "applyStyleTransfer \<lparr>width = 1, height = 1, ctx = True, pixels = [255, 0, 0, 255]\<rparr>
     ''monochrome'' (Fin 0)
   = Inr \<lparr>width = 1, height = 1, ctx = True, pixels = [76, 76, 76, 255]\<rparr>"
  by (simp add: applyStyleTransfer_def getImageData_def for_by4.simps style_body_def
      style_switch_def rd_def wr_def Let_def)

section \<open>The sharpening loop on a small image\<close>

lemma sharpen_step_6:
  "sharpen_body 2 6
     [100, 110, 120, 255, 100, 110, 120, 255, 100, 110, 120, 255,
      100, 110, 120, 255, 100, 110, 120, 255, 100, 110, 120, 255,
      100, 110, 120, 255, 100, 110, 120, 255]
   = [100, 110, 120, 255, 100, 110, 0, 0, 0, 110, 120, 255,
      100, 110, 120, 255, 100, 110, 120, 255, 100, 110, 120, 255,
      100, 110, 120, 255, 100, 110, 120, 255]"
  by (simp add: sharpen_body_def convolve_def sharpenKernel_def rd_def wr_def)

lemma sharpen_step_10:
  "sharpen_body 2 10
     [100, 110, 120, 255, 100, 110, 0, 0, 0, 110, 120, 255,
      100, 110, 120, 255, 100, 110, 120, 255, 100, 110, 120, 255,
      100, 110, 120, 255, 100, 110, 120, 255]
   = [100, 110, 120, 255, 100, 110, 0, 0, 0, 110, 0, 0,
      200, 110, 120, 255, 100, 110, 120, 255, 100, 110, 120, 255,
      100, 110, 120, 255, 100, 110, 120, 255]"
  by (simp add: sharpen_body_def convolve_def sharpenKernel_def rd_def wr_def)

lemma sharpen_step_14:
  "sharpen_body 2 14
     [100, 110, 120, 255, 100, 110, 0, 0, 0, 110, 0, 0,
      200, 110, 120, 255, 100, 110, 120, 255, 100, 110, 120, 255,
      100, 110, 120, 255, 100, 110, 120, 255]
   = [100, 110, 120, 255, 100, 110, 0, 0, 0, 110, 0, 0,
      200, 110, 255, 255, 100, 110, 120, 255, 100, 110, 120, 255,
      100, 110, 120, 255, 100, 110, 120, 255]"
  by (simp add: sharpen_body_def convolve_def sharpenKernel_def rd_def wr_def)

lemma sharpen_step_18:
  "sharpen_body 2 18
     [100, 110, 120, 255, 100, 110, 0, 0, 0, 110, 0, 0,
      200, 110, 255, 255, 100, 110, 120, 255, 100, 110, 120, 255,
      100, 110, 120, 255, 100, 110, 120, 255]
   = [100, 110, 120, 255, 100, 110, 0, 0, 0, 110, 0, 0,
      200, 110, 255, 255, 100, 110, 105, 255, 0, 110, 120, 255,
      100, 110, 120, 255, 100, 110, 120, 255]"
  by (simp add: sharpen_body_def convolve_def sharpenKernel_def rd_def wr_def)

text \<open>
  C4 fails on the code: the loop starts at index \<open>newWidth + 4\<close>. A uniform 1 by 2
  image upscaled by 2 is resampled to the uniform 2 by 4 image; the loop starts at index 6,
  inside the second pixel of the first row, reads above the array, and stores 0 or
  sharpened values over alpha samples (indices 7, 11, 15, 19) and over colour samples of
  border pixels (every pixel of an image two pixels wide is on the border).
\<close>

theorem sharpen_rewrites_border_and_alpha:
  "applySuperResolution
     (\<lambda>c w h. [100, 110, 120, 255, 100, 110, 120, 255, 100, 110, 120, 255,
               100, 110, 120, 255, 100, 110, 120, 255, 100, 110, 120, 255,
               100, 110, 120, 255, 100, 110, 120, 255])
     \<lparr>width = 1, height = 2, ctx = True, pixels = [100, 110, 120, 255, 100, 110, 120, 255]\<rparr> 2
   = Inr \<lparr>width = 2, height = 4, ctx = True,
          pixels = [100, 110, 120, 255, 100, 110, 0, 0, 0, 110, 0, 0,
                    200, 110, 255, 255, 100, 110, 105, 255, 0, 110, 120, 255,
                    100, 110, 120, 255, 100, 110, 120, 255]\<rparr>"
  by (simp add: applySuperResolution_def getImageData_def Let_def for_by4.simps
      sharpen_step_6 sharpen_step_10 sharpen_step_14 sharpen_step_18)

section \<open>Binary64: the exponent\<close>

text \<open>The exponent that \<open>round64\<close> uses is the binary exponent of its argument.\<close>

lemma expo_bounds:
  assumes "x \<noteq> 0"
  shows "pow2 (expo x) \<le> \<bar>x\<bar>" and "\<bar>x\<bar> < pow2 (expo x + 1)"
proof -
  define a where "a = \<bar>x\<bar>"
  have a: "0 < a" using assms by (simp add: a_def)
  have "pow2 (expo x) \<le> a \<and> a < pow2 (expo x + 1)"
  proof (cases "1 \<le> a")
    case True
    define n where "n = \<lfloor>a\<rfloor>"
    have n: "1 \<le> n" using True by (simp add: n_def le_floor_iff)
    then have bl: "2 ^ nat (bitlen n - 1) \<le> n" "n < 2 ^ nat (bitlen n)"
      using bitlen_bounds [of n] by simp_all
    have b1: "1 \<le> bitlen n" using n by (simp add: bitlen_alt_def)
    have e: "expo x = bitlen n - 1"
      using True by (simp add: expo_def a_def [symmetric] n_def)
    have "(2::real) ^ nat (bitlen n - 1) \<le> real_of_int n"
      using bl(1) of_int_le_iff [of "2 ^ nat (bitlen n - 1)" n, where ?'a = real] by simp
    moreover have "real_of_int n \<le> a" by (simp add: n_def)
    ultimately have "(2::real) ^ nat (bitlen n - 1) \<le> a" by linarith
    then have lo: "pow2 (expo x) \<le> a" using b1 by (simp add: e pow2_def)
    have "n + 1 \<le> 2 ^ nat (bitlen n)" using bl(2) by simp
    then have "real_of_int (n + 1) \<le> (2::real) ^ nat (bitlen n)"
      using of_int_le_iff [of "n + 1" "2 ^ nat (bitlen n)", where ?'a = real] by simp
    moreover have "a < real_of_int (n + 1)" by (simp add: n_def)
    ultimately have "a < (2::real) ^ nat (bitlen n)" by linarith
    then have "a < pow2 (expo x + 1)" using b1 by (simp add: e pow2_def)
    with lo show ?thesis ..
  next
    case False
    define t where "t = 1 / a"
    define m where "m = \<lceil>t\<rceil> - 1"
    have t: "1 < t" using False a by (simp add: t_def)
    then have m: "1 \<le> m" by (simp add: m_def less_ceiling_iff)
    then have bl: "2 ^ nat (bitlen m - 1) \<le> m" "m < 2 ^ nat (bitlen m)"
      using bitlen_bounds [of m] by simp_all
    have b1: "1 \<le> bitlen m" using m by (simp add: bitlen_alt_def)
    have e: "expo x = - bitlen m"
      using False by (simp add: expo_def a_def [symmetric] m_def t_def)
    have "m + 1 \<le> 2 ^ nat (bitlen m)" using bl(2) by simp
    then have "real_of_int (m + 1) \<le> (2::real) ^ nat (bitlen m)"
      using of_int_le_iff [of "m + 1" "2 ^ nat (bitlen m)", where ?'a = real] by simp
    moreover have "t \<le> real_of_int (m + 1)" by (simp add: m_def)
    ultimately have "t \<le> 2 ^ nat (bitlen m)" by linarith
    then have "1 / 2 ^ nat (bitlen m) \<le> a"
      using a by (simp add: t_def field_simps)
    then have lo: "pow2 (expo x) \<le> a" using b1 by (simp add: e pow2_def)
    have "(2::real) ^ nat (bitlen m - 1) \<le> real_of_int m"
      using bl(1) of_int_le_iff [of "2 ^ nat (bitlen m - 1)" m, where ?'a = real] by simp
    moreover have "real_of_int m < t" unfolding m_def by linarith
    ultimately have "2 ^ nat (bitlen m - 1) < t" by linarith
    then have "a < 1 / 2 ^ nat (bitlen m - 1)"
      using a by (simp add: t_def field_simps)
    moreover have "pow2 (expo x + 1) = 1 / 2 ^ nat (bitlen m - 1)"
    proof (cases "bitlen m = 1")
      case True
      then show ?thesis by (simp add: e pow2_def)
    next
      case False
      with b1 have "1 < bitlen m" by simp
      then show ?thesis by (simp add: e pow2_def)
    qed
    ultimately have "a < pow2 (expo x + 1)" by simp
    with lo show ?thesis ..
  qed
  then show "pow2 (expo x) \<le> \<bar>x\<bar>" and "\<bar>x\<bar> < pow2 (expo x + 1)"
    by (simp_all add: a_def)
qed

section \<open>Binary64: the array and the loop bodies\<close>

lemma lit_zero: "lit 0 = Num 0"
  by (simp add: lit_def round64_def)

lemma times_float64_commute: "a * b = b * (a::float64)"
  by (cases a; cases b) (simp_all add: mult.commute)

lemma ToUint8Clamp64_lower: "ToUint8Clamp64 (Math_max64 (lit 0) y) = ToUint8Clamp64 y"
  by (cases y) (simp_all add: lit_zero)

lemma length_wr64 [simp]: "length (wr64 data i v) = length data"
  by (simp add: wr64_def)

lemma nth_wr64:
  "wr64 data i v ! j =
     (if 0 \<le> i \<and> i < int (length data) \<and> i = int j then ToUint8Clamp64 v else data ! j)"
  by (auto simp: wr64_def nth_list_update)

lemma rd64_wr64:
  "rd64 (wr64 data i v) k =
     (if 0 \<le> i \<and> i < int (length data) \<and> k = i then Num (real (ToUint8Clamp64 v))
      else rd64 data k)"
  by (auto simp: wr64_def rd64_def nth_list_update)

lemma rd64_rd: "rd64 data i = to64 (rd data i)"
  by (simp add: rd64_def rd_def to64_def)

lemma length_restoration_body64 [simp]: "length (restoration_body64 strength i s) = length s"
  by (simp add: restoration_body64_def Let_def)

lemma length_style_body64 [simp]: "length (style_body64 style intensity i s) = length s"
  by (simp add: style_body64_def Let_def split: prod.split)

lemma frame_restoration_body64:
  "int j < i \<or> i + 2 < int j \<Longrightarrow> restoration_body64 strength i s ! j = s ! j"
  by (auto simp: restoration_body64_def Let_def nth_wr64)

lemma frame_style_body64:
  "int j < i \<or> i + 2 < int j \<Longrightarrow> style_body64 style intensity i s ! j = s ! j"
  by (auto simp: style_body64_def Let_def nth_wr64 split: prod.split)

lemma char_restoration_body64:
  assumes "0 \<le> i" "i \<le> int j" "int j \<le> i + 2" "j < length s"
  shows "restoration_body64 strength i s ! j =
           (let v = to64 (if nat (int j - i) = 0 then rd s i
                          else if nat (int j - i) = 1 then rd s (i + 1) else rd s (i + 2));
                v1 = ToUint8Clamp64
                       (Math_min64 (lit 255) ((v - lit 128) * (lit 1 + strength * lit 0.5) + lit 128))
            in if strength > lit 0.3
               then ToUint8Clamp64 (Num (real v1) * (lit 1 - strength * lit 0.2)
                                     + lit 128 * (strength * lit 0.2))
               else v1)"
proof -
  consider "int j = i" | "int j = i + 1" | "int j = i + 2" using assms by linarith
  then show ?thesis
  proof cases
    case 1
    with assms show ?thesis
      by (simp add: restoration_body64_def Let_def nth_wr64 rd64_wr64 rd64_rd [symmetric]
          del: ToUint8Clamp64.simps)
  next
    case 2
    with assms show ?thesis
      by (simp add: restoration_body64_def Let_def nth_wr64 rd64_wr64 rd64_rd [symmetric]
          del: ToUint8Clamp64.simps)
  next
    case 3
    with assms show ?thesis
      by (simp add: restoration_body64_def Let_def nth_wr64 rd64_wr64 rd64_rd [symmetric]
          del: ToUint8Clamp64.simps)
  qed
qed

lemma char_style_body64:
  assumes "0 \<le> i" "i \<le> int j" "int j \<le> i + 2" "j < length s"
  shows "style_body64 style intensity i s ! j =
           (case style_switch64 style intensity
                   (to64 (rd s i), to64 (rd s (i + 1)), to64 (rd s (i + 2))) of
              (r, g, b) \<Rightarrow>
                store_clamped64
                  (if nat (int j - i) = 0 then r else if nat (int j - i) = 1 then g else b))"
proof -
  consider "int j = i" | "int j = i + 1" | "int j = i + 2" using assms by linarith
  then show ?thesis
  proof cases
    case 1
    with assms show ?thesis
      by (simp add: style_body64_def store_clamped64_def Let_def nth_wr64 rd64_rd [symmetric]
          split: prod.split)
  next
    case 2
    with assms show ?thesis
      by (simp add: style_body64_def store_clamped64_def Let_def nth_wr64 rd64_rd [symmetric]
          split: prod.split)
  next
    case 3
    with assms show ?thesis
      by (simp add: style_body64_def store_clamped64_def Let_def nth_wr64 rd64_rd [symmetric]
          split: prod.split)
  qed
qed

lemma applyRestorationFilter64_Inr:
  assumes "applyRestorationFilter64 canvas strength = Inr c'"
  shows "pixels c' =
           (if ctx canvas
            then for_by4 0 (int (length (pixels canvas))) (restoration_body64 strength)
                   (pixels canvas)
            else pixels canvas)"
  using assms by (auto simp: applyRestorationFilter64_def getImageData_def split: if_splits)

lemma applyStyleTransfer64_Inr:
  assumes "applyStyleTransfer64 canvas style intensity = Inr c'"
  shows "pixels c' =
           (if ctx canvas
            then for_by4 0 (int (length (pixels canvas))) (style_body64 style intensity)
                   (pixels canvas)
            else pixels canvas)"
  using assms by (auto simp: applyStyleTransfer64_def getImageData_def split: if_splits)

lemma restore_sample_stored:
  "(let v = to64 (Fin (real x));
        v1 = ToUint8Clamp64
               (Math_min64 (lit 255) ((v - lit 128) * (lit 1 + strength * lit 0.5) + lit 128))
    in if strength > lit 0.3
       then ToUint8Clamp64 (Num (real v1) * (lit 1 - strength * lit 0.2)
                             + lit 128 * (strength * lit 0.2))
       else v1) = restore_stored strength x"
  by (simp only: restore_stored_def Let_def ToUint8Clamp64_lower to64_def jsnum.case
      times_float64_commute [of strength])

lemma restoration64_loop_sample:
  assumes "j < length s" and "j mod 4 \<noteq> 3"
  shows "for_by4 0 (int (length s)) (restoration_body64 strength) s ! j
           = restore_stored strength (s ! j)"
proof -
  let ?H = "\<lambda>c r g b.
     (let v = to64 (if c = 0 then r else if c = (1::nat) then g else b);
          v1 = ToUint8Clamp64
                 (Math_min64 (lit 255) ((v - lit 128) * (lit 1 + strength * lit 0.5) + lit 128))
      in if strength > lit 0.3
         then ToUint8Clamp64 (Num (real v1) * (lit 1 - strength * lit 0.2)
                               + lit 128 * (strength * lit 0.2))
         else v1)"
  have "for_by4 0 (int (length s)) (restoration_body64 strength) s ! j
          = ?H (j mod 4) (rd s (int (4 * (j div 4)))) (rd s (int (4 * (j div 4)) + 1))
              (rd s (int (4 * (j div 4)) + 2))"
    by (rule for_by4_pixelwise [where H = ?H, OF length_restoration_body64
          frame_restoration_body64 char_restoration_body64 assms])
  also have "\<dots> = (let v = to64 (Fin (real (s ! j)));
          v1 = ToUint8Clamp64
                 (Math_min64 (lit 255) ((v - lit 128) * (lit 1 + strength * lit 0.5) + lit 128))
      in if strength > lit 0.3
         then ToUint8Clamp64 (Num (real v1) * (lit 1 - strength * lit 0.2)
                               + lit 128 * (strength * lit 0.2))
         else v1)"
    using pixel_channel_rd [OF assms] by (simp only: Let_def)
  also have "\<dots> = restore_stored strength (s ! j)" by (rule restore_sample_stored)
  finally show ?thesis .
qed

text \<open>
  C6, as the code has it. With a 2D context, restore computes in binary64 and maps each
  colour sample \<open>v\<close> to the 8-bit sample nearest to
  \<open>clamp((v - 128) * (1 + 0.5 * strength) + 128, 0, 255)\<close> and, exactly when
  \<open>strength > 0.3\<close>, replaces that stored sample \<open>v'\<close> by the 8-bit sample nearest to
  \<open>v' * (1 - 0.2 * strength) + 128 * (0.2 * strength)\<close>. Both results are rounded when
  they are stored, a tie to the even sample, and the blend starts from the rounded one.
  This holds for every strength, NaN and the infinities included.
\<close>

theorem restore_stores_rounded_binary64:
  assumes "applyRestorationFilter64 canvas strength = Inr c'"
    and "ctx canvas"
    and "j < length (pixels canvas)" and "j mod 4 \<noteq> 3"
  shows "pixels c' ! j = restore_stored strength (pixels canvas ! j)"
  using applyRestorationFilter64_Inr [OF assms(1)] assms(2)
    restoration64_loop_sample [OF assms(3,4)]
  by simp

lemma style64_loop_sample:
  assumes "j < length s" and "j mod 4 \<noteq> 3"
  shows "for_by4 0 (int (length s)) (style_body64 style intensity) s ! j
           = (case style_switch64 style intensity
                     (to64 (rd s (int (4 * (j div 4)))), to64 (rd s (int (4 * (j div 4)) + 1)),
                      to64 (rd s (int (4 * (j div 4)) + 2))) of
                (r, g, b) \<Rightarrow>
                  store_clamped64 (if j mod 4 = 0 then r else if j mod 4 = 1 then g else b))"
  by (rule for_by4_pixelwise
        [where H = "\<lambda>c r g b. case style_switch64 style intensity (to64 r, to64 g, to64 b) of
                      (r, g, b) \<Rightarrow> store_clamped64 (if c = 0 then r else if c = 1 then g else b)",
          OF length_style_body64 frame_style_body64 char_style_body64 assms])

lemma style64_loop_pixel:
  assumes "p mod 4 = 0" and "p + 2 < length s" and "c \<le> 2"
  shows "for_by4 0 (int (length s)) (style_body64 style intensity) s ! (p + c)
           = (case style_switch64 style intensity
                     (Num (real (s ! p)), Num (real (s ! (p + 1))), Num (real (s ! (p + 2)))) of
                (r, g, b) \<Rightarrow> store_clamped64 (if c = 0 then r else if c = 1 then g else b))"
proof -
  have c: "c < 4" using assms(3) by simp
  have j: "p + c < length s" "(p + c) mod 4 \<noteq> 3"
    using assms(2,3) aligned_pixel(2) [OF assms(1) c] by simp_all
  have r0: "to64 (rd s (int p)) = Num (real (s ! p))"
    using rd_in_range [of p s] assms(2) by (simp add: to64_def)
  have r1: "to64 (rd s (int p + 1)) = Num (real (s ! (p + 1)))"
    using rd_in_range [of "p + 1" s] assms(2) by (simp add: add.commute to64_def)
  have r2: "to64 (rd s (int p + 2)) = Num (real (s ! (p + 2)))"
    using rd_in_range [of "p + 2" s] assms(2) by (simp add: add.commute to64_def)
  show ?thesis
    by (simp only: style64_loop_sample [OF j] aligned_pixel [OF assms(1) c] r0 r1 r2)
qed

lemma style_switch64_vintage:
  "style_switch64 ''vintage'' intensity (r, g, b) =
     (sepia_red intensity r g b,
      sepia_green intensity (sepia_red intensity r g b) g b,
      sepia_blue intensity (sepia_red intensity r g b)
        (sepia_green intensity (sepia_red intensity r g b) g b) b)"
  by (simp add: style_switch64_def sepia_red_def sepia_green_def sepia_blue_def Let_def)

text \<open>
  C7. In the vintage branch the three updates are a chain, computed in binary64: red is
  the sepia formula on the pixel's own values, green is its formula on the new red, and
  blue is its formula on the new red and the new green. Each result is then stored
  clamped. This holds for every intensity, NaN and the infinities included.
\<close>

theorem vintage_sequential_chain_binary64:
  assumes "applyStyleTransfer64 canvas ''vintage'' intensity = Inr c'"
    and "ctx canvas"
    and "p mod 4 = 0" and "p + 2 < length (pixels canvas)"
  shows "let r = Num (real (pixels canvas ! p));
             g = Num (real (pixels canvas ! (p + 1)));
             b = Num (real (pixels canvas ! (p + 2)));
             r' = sepia_red intensity r g b;
             g' = sepia_green intensity r' g b;
             b' = sepia_blue intensity r' g' b
         in pixels c' ! p = store_clamped64 r'
          \<and> pixels c' ! (p + 1) = store_clamped64 g'
          \<and> pixels c' ! (p + 2) = store_clamped64 b'"
proof -
  let ?s = "pixels canvas"
  have out: "pixels c' = for_by4 0 (int (length ?s)) (style_body64 ''vintage'' intensity) ?s"
    using applyStyleTransfer64_Inr [OF assms(1)] assms(2) by simp
  have "pixels c' ! (p + 0) = store_clamped64 (sepia_red intensity (Num (real (?s ! p)))
          (Num (real (?s ! (p + 1)))) (Num (real (?s ! (p + 2)))))"
    unfolding out
    using style64_loop_pixel [OF assms(3,4), where c = 0 and style = "''vintage''"
        and intensity = intensity]
    by (simp add: style_switch64_vintage)
  moreover have "pixels c' ! (p + 1) = store_clamped64 (sepia_green intensity
          (sepia_red intensity (Num (real (?s ! p)))
             (Num (real (?s ! (p + 1)))) (Num (real (?s ! (p + 2)))))
          (Num (real (?s ! (p + 1)))) (Num (real (?s ! (p + 2)))))"
    unfolding out
    using style64_loop_pixel [OF assms(3,4), where c = 1 and style = "''vintage''"
        and intensity = intensity]
    by (simp add: style_switch64_vintage)
  moreover have "pixels c' ! (p + 2) = store_clamped64 (sepia_blue intensity
          (sepia_red intensity (Num (real (?s ! p)))
             (Num (real (?s ! (p + 1)))) (Num (real (?s ! (p + 2)))))
          (sepia_green intensity
             (sepia_red intensity (Num (real (?s ! p)))
                (Num (real (?s ! (p + 1)))) (Num (real (?s ! (p + 2)))))
             (Num (real (?s ! (p + 1)))) (Num (real (?s ! (p + 2)))))
          (Num (real (?s ! (p + 2)))))"
    unfolding out
    using style64_loop_pixel [OF assms(3,4), where c = 2 and style = "''vintage''"
        and intensity = intensity]
    by (simp add: style_switch64_vintage)
  ultimately show ?thesis by (simp add: Let_def)
qed

section \<open>One pixel\<close>

lemma four_samples:
  assumes "length xs = 4" and "xs ! 0 = a" "xs ! 1 = b" "xs ! 2 = c" "xs ! 3 = d"
  shows "xs = [a, b, c, d]"
proof (rule nth_equalityI)
  show "length xs = length [a, b, c, d]" using assms(1) by simp
  fix j
  assume "j < length xs"
  then have "j = 0 \<or> j = 1 \<or> j = 2 \<or> j = 3" using assms(1) by linarith
  then show "xs ! j = [a, b, c, d] ! j" using assms(2-) by auto
qed

lemma restoration64_single_pixel:
  "applyRestorationFilter64 \<lparr>width = 1, height = 1, ctx = True, pixels = [r, g, b, a]\<rparr> strength
   = Inr \<lparr>width = 1, height = 1, ctx = True,
          pixels = [restore_stored strength r, restore_stored strength g,
                    restore_stored strength b, a]\<rparr>"
proof -
  let ?s = "[r, g, b, a]"
  let ?out = "for_by4 0 (int (length ?s)) (restoration_body64 strength) ?s"
  have len: "length ?out = 4"
    using for_by4_invariant [where P = "\<lambda>t. length t = 4"
        and body = "restoration_body64 strength" and s = ?s] by simp
  have "?out ! 0 = restore_stored strength r" "?out ! 1 = restore_stored strength g"
    "?out ! 2 = restore_stored strength b"
    using restoration64_loop_sample [of 0 ?s strength]
      restoration64_loop_sample [of 1 ?s strength]
      restoration64_loop_sample [of 2 ?s strength]
    by simp_all
  moreover have "?out ! 3 = a"
    using for_by4_alpha [where body = "restoration_body64 strength" and i = 0 and j = 3
        and s = ?s, OF frame_restoration_body64] by simp
  ultimately have "?out = [restore_stored strength r, restore_stored strength g,
                    restore_stored strength b, a]"
    using len by (intro four_samples) simp_all
  then show ?thesis by (simp add: applyRestorationFilter64_def getImageData_def)
qed

lemma vintage64_single_pixel:
  "applyStyleTransfer64 \<lparr>width = 1, height = 1, ctx = True, pixels = [r, g, b, a]\<rparr>
     ''vintage'' intensity
   = Inr \<lparr>width = 1, height = 1, ctx = True,
          pixels =
            [store_clamped64 (sepia_red intensity (Num (real r)) (Num (real g)) (Num (real b))),
             store_clamped64
               (sepia_green intensity
                  (sepia_red intensity (Num (real r)) (Num (real g)) (Num (real b)))
                  (Num (real g)) (Num (real b))),
             store_clamped64
               (sepia_blue intensity
                  (sepia_red intensity (Num (real r)) (Num (real g)) (Num (real b)))
                  (sepia_green intensity
                     (sepia_red intensity (Num (real r)) (Num (real g)) (Num (real b)))
                     (Num (real g)) (Num (real b)))
                  (Num (real b))),
             a]\<rparr>"
proof -
  let ?s = "[r, g, b, a]"
  let ?out = "for_by4 0 (int (length ?s)) (style_body64 ''vintage'' intensity) ?s"
  have len: "length ?out = 4"
    using for_by4_invariant [where P = "\<lambda>t. length t = 4"
        and body = "style_body64 ''vintage'' intensity" and s = ?s] by simp
  have p: "(0::nat) mod 4 = 0" "0 + 2 < length ?s" by simp_all
  have "?out ! 0 = store_clamped64 (sepia_red intensity (Num (real r)) (Num (real g))
                     (Num (real b)))"
    using style64_loop_pixel [OF p, where c = 0 and style = "''vintage''"
        and intensity = intensity]
    by (simp add: style_switch64_vintage)
  moreover have "?out ! 1 = store_clamped64
               (sepia_green intensity
                  (sepia_red intensity (Num (real r)) (Num (real g)) (Num (real b)))
                  (Num (real g)) (Num (real b)))"
    using style64_loop_pixel [OF p, where c = 1 and style = "''vintage''"
        and intensity = intensity]
    by (simp add: style_switch64_vintage)
  moreover have "?out ! 2 = store_clamped64
               (sepia_blue intensity
                  (sepia_red intensity (Num (real r)) (Num (real g)) (Num (real b)))
                  (sepia_green intensity
                     (sepia_red intensity (Num (real r)) (Num (real g)) (Num (real b)))
                     (Num (real g)) (Num (real b)))
                  (Num (real b)))"
    using style64_loop_pixel [OF p, where c = 2 and style = "''vintage''"
        and intensity = intensity]
    by (simp add: style_switch64_vintage numeral_2_eq_2)
  moreover have "?out ! 3 = a"
    using for_by4_alpha [where body = "style_body64 ''vintage'' intensity" and i = 0
        and j = 3 and s = ?s, OF frame_style_body64] by simp
  ultimately have "?out = [store_clamped64 (sepia_red intensity (Num (real r)) (Num (real g))
                     (Num (real b))),
             store_clamped64
               (sepia_green intensity
                  (sepia_red intensity (Num (real r)) (Num (real g)) (Num (real b)))
                  (Num (real g)) (Num (real b))),
             store_clamped64
               (sepia_blue intensity
                  (sepia_red intensity (Num (real r)) (Num (real g)) (Num (real b)))
                  (sepia_green intensity
                     (sepia_red intensity (Num (real r)) (Num (real g)) (Num (real b)))
                     (Num (real g)) (Num (real b)))
                  (Num (real b))),
             a]"
    using len by (intro four_samples) simp_all
  then show ?thesis by (simp add: applyStyleTransfer64_def getImageData_def)
qed

section \<open>Binary64: evaluation on concrete samples\<close>

text \<open>Each step below is one rounded operation; its result is the exact binary64 value.\<close>

lemmas ev64 = lit_def round64_def expo_def pow2_def round_half_even_def compute_bitlen
  minus_float64_def Let_def

lemma restore_half_228:
  "restore_stored (lit 0.5) 228 = 241"
proof -
  have e1: "lit 0.5 = Num (1 / 2)" by (simp add: ev64)
  have e2: "lit 128 = Num 128" by (simp add: ev64)
  have e3: "(Num 228) - (Num 128) = Num 100" by (simp add: ev64)
  have e4: "lit 1 = Num 1" by (simp add: ev64)
  have e5: "(Num (1 / 2)) * (Num (1 / 2)) = Num (1 / 4)" by (simp add: ev64)
  have e6: "(Num 1) + (Num (1 / 4)) = Num (5 / 4)" by (simp add: ev64)
  have e7: "(Num 100) * (Num (5 / 4)) = Num 125" by (simp add: ev64)
  have e8: "(Num 125) + (Num 128) = Num 253" by (simp add: ev64)
  have e9: "lit 0 = Num 0" by (simp add: ev64)
  have e10: "lit 255 = Num 255" by (simp add: ev64)
  have e11: "Math_min64 (Num 255) (Num 253) = Num 253" by (simp add: ev64)
  have e12: "Math_max64 (Num 0) (Num 253) = Num 253" by (simp add: ev64)
  have e13: "ToUint8Clamp64 (Num 253) = 253" by (simp add: ev64)
  have e14: "lit 0.3 = Num (5404319552844595 / 18014398509481984)" by (simp add: ev64)
  have e15: "(Num (5404319552844595 / 18014398509481984) < Num (1 / 2)) = True" by (simp add: ev64)
  have e16: "lit 0.2 = Num (3602879701896397 / 18014398509481984)" by (simp add: ev64)
  have e17: "(Num (3602879701896397 / 18014398509481984)) * (Num (1 / 2)) = Num (3602879701896397 / 36028797018963968)" by (simp add: ev64)
  have e18: "(Num 1) - (Num (3602879701896397 / 36028797018963968)) = Num (8106479329266893 / 9007199254740992)" by (simp add: ev64)
  have e19: "(Num 253) * (Num (8106479329266893 / 9007199254740992)) = Num (8011481524627047 / 35184372088832)" by (simp add: ev64)
  have e20: "(Num 128) * (Num (3602879701896397 / 36028797018963968)) = Num (3602879701896397 / 281474976710656)" by (simp add: ev64)
  have e21: "(Num (8011481524627047 / 35184372088832)) + (Num (3602879701896397 / 281474976710656)) = Num (8461841487364097 / 35184372088832)" by (simp add: ev64)
  have e22: "ToUint8Clamp64 (Num (8461841487364097 / 35184372088832)) = 241" by (simp add: ev64)
  show ?thesis
    by (simp only: restore_stored_def Let_def of_nat_numeral of_nat_0 if_True if_False
        e1 e2 e3 e4 e5 e6 e7 e8 e9 e10 e11 e12 e13 e14 e15 e16 e17 e18 e19 e20 e21 e22)
qed

lemma restore_half_0:
  "restore_stored (lit 0.5) 0 = 13"
proof -
  have e1: "lit 0.5 = Num (1 / 2)" by (simp add: ev64)
  have e2: "lit 128 = Num 128" by (simp add: ev64)
  have e3: "(Num 0) - (Num 128) = Num (- 128)" by (simp add: ev64)
  have e4: "lit 1 = Num 1" by (simp add: ev64)
  have e5: "(Num (1 / 2)) * (Num (1 / 2)) = Num (1 / 4)" by (simp add: ev64)
  have e6: "(Num 1) + (Num (1 / 4)) = Num (5 / 4)" by (simp add: ev64)
  have e7: "(Num (- 128)) * (Num (5 / 4)) = Num (- 160)" by (simp add: ev64)
  have e8: "(Num (- 160)) + (Num 128) = Num (- 32)" by (simp add: ev64)
  have e9: "lit 0 = Num 0" by (simp add: ev64)
  have e10: "lit 255 = Num 255" by (simp add: ev64)
  have e11: "Math_min64 (Num 255) (Num (- 32)) = Num (- 32)" by (simp add: ev64)
  have e12: "Math_max64 (Num 0) (Num (- 32)) = Num 0" by (simp add: ev64)
  have e13: "ToUint8Clamp64 (Num 0) = 0" by (simp add: ev64)
  have e14: "lit 0.3 = Num (5404319552844595 / 18014398509481984)" by (simp add: ev64)
  have e15: "(Num (5404319552844595 / 18014398509481984) < Num (1 / 2)) = True" by (simp add: ev64)
  have e16: "lit 0.2 = Num (3602879701896397 / 18014398509481984)" by (simp add: ev64)
  have e17: "(Num (3602879701896397 / 18014398509481984)) * (Num (1 / 2)) = Num (3602879701896397 / 36028797018963968)" by (simp add: ev64)
  have e18: "(Num 1) - (Num (3602879701896397 / 36028797018963968)) = Num (8106479329266893 / 9007199254740992)" by (simp add: ev64)
  have e19: "(Num 0) * (Num (8106479329266893 / 9007199254740992)) = Num 0" by (simp add: ev64)
  have e20: "(Num 128) * (Num (3602879701896397 / 36028797018963968)) = Num (3602879701896397 / 281474976710656)" by (simp add: ev64)
  have e21: "(Num 0) + (Num (3602879701896397 / 281474976710656)) = Num (3602879701896397 / 281474976710656)" by (simp add: ev64)
  have e22: "ToUint8Clamp64 (Num (3602879701896397 / 281474976710656)) = 13" by (simp add: ev64)
  show ?thesis
    by (simp only: restore_stored_def Let_def of_nat_numeral of_nat_0 if_True if_False
        e1 e2 e3 e4 e5 e6 e7 e8 e9 e10 e11 e12 e13 e14 e15 e16 e17 e18 e19 e20 e21 e22)
qed

lemma restore_half_255:
  "restore_stored (lit 0.5) 255 = 242"
proof -
  have e1: "lit 0.5 = Num (1 / 2)" by (simp add: ev64)
  have e2: "lit 128 = Num 128" by (simp add: ev64)
  have e3: "(Num 255) - (Num 128) = Num 127" by (simp add: ev64)
  have e4: "lit 1 = Num 1" by (simp add: ev64)
  have e5: "(Num (1 / 2)) * (Num (1 / 2)) = Num (1 / 4)" by (simp add: ev64)
  have e6: "(Num 1) + (Num (1 / 4)) = Num (5 / 4)" by (simp add: ev64)
  have e7: "(Num 127) * (Num (5 / 4)) = Num (635 / 4)" by (simp add: ev64)
  have e8: "(Num (635 / 4)) + (Num 128) = Num (1147 / 4)" by (simp add: ev64)
  have e9: "lit 0 = Num 0" by (simp add: ev64)
  have e10: "lit 255 = Num 255" by (simp add: ev64)
  have e11: "Math_min64 (Num 255) (Num (1147 / 4)) = Num 255" by (simp add: ev64)
  have e12: "Math_max64 (Num 0) (Num 255) = Num 255" by (simp add: ev64)
  have e13: "ToUint8Clamp64 (Num 255) = 255" by (simp add: ev64)
  have e14: "lit 0.3 = Num (5404319552844595 / 18014398509481984)" by (simp add: ev64)
  have e15: "(Num (5404319552844595 / 18014398509481984) < Num (1 / 2)) = True" by (simp add: ev64)
  have e16: "lit 0.2 = Num (3602879701896397 / 18014398509481984)" by (simp add: ev64)
  have e17: "(Num (3602879701896397 / 18014398509481984)) * (Num (1 / 2)) = Num (3602879701896397 / 36028797018963968)" by (simp add: ev64)
  have e18: "(Num 1) - (Num (3602879701896397 / 36028797018963968)) = Num (8106479329266893 / 9007199254740992)" by (simp add: ev64)
  have e19: "(Num 255) * (Num (8106479329266893 / 9007199254740992)) = Num (459 / 2)" by (simp add: ev64)
  have e20: "(Num 128) * (Num (3602879701896397 / 36028797018963968)) = Num (3602879701896397 / 281474976710656)" by (simp add: ev64)
  have e21: "(Num (459 / 2)) + (Num (3602879701896397 / 281474976710656)) = Num (4262586678561997 / 17592186044416)" by (simp add: ev64)
  have e22: "ToUint8Clamp64 (Num (4262586678561997 / 17592186044416)) = 242" by (simp add: ev64)
  show ?thesis
    by (simp only: restore_stored_def Let_def of_nat_numeral of_nat_0 if_True if_False
        e1 e2 e3 e4 e5 e6 e7 e8 e9 e10 e11 e12 e13 e14 e15 e16 e17 e18 e19 e20 e21 e22)
qed

lemma restore_one_129:
  "restore_stored (lit 1) 129 = 130"
proof -
  have e1: "lit 1 = Num 1" by (simp add: ev64)
  have e2: "lit 128 = Num 128" by (simp add: ev64)
  have e3: "(Num 129) - (Num 128) = Num 1" by (simp add: ev64)
  have e4: "lit 0.5 = Num (1 / 2)" by (simp add: ev64)
  have e5: "(Num (1 / 2)) * (Num 1) = Num (1 / 2)" by (simp add: ev64)
  have e6: "(Num 1) + (Num (1 / 2)) = Num (3 / 2)" by (simp add: ev64)
  have e7: "(Num 1) * (Num (3 / 2)) = Num (3 / 2)" by (simp add: ev64)
  have e8: "(Num (3 / 2)) + (Num 128) = Num (259 / 2)" by (simp add: ev64)
  have e9: "lit 0 = Num 0" by (simp add: ev64)
  have e10: "lit 255 = Num 255" by (simp add: ev64)
  have e11: "Math_min64 (Num 255) (Num (259 / 2)) = Num (259 / 2)" by (simp add: ev64)
  have e12: "Math_max64 (Num 0) (Num (259 / 2)) = Num (259 / 2)" by (simp add: ev64)
  have e13: "ToUint8Clamp64 (Num (259 / 2)) = 130" by (simp add: ev64)
  have e14: "lit 0.3 = Num (5404319552844595 / 18014398509481984)" by (simp add: ev64)
  have e15: "(Num (5404319552844595 / 18014398509481984) < Num 1) = True" by (simp add: ev64)
  have e16: "lit 0.2 = Num (3602879701896397 / 18014398509481984)" by (simp add: ev64)
  have e17: "(Num (3602879701896397 / 18014398509481984)) * (Num 1) = Num (3602879701896397 / 18014398509481984)" by (simp add: ev64)
  have e18: "(Num 1) - (Num (3602879701896397 / 18014398509481984)) = Num (3602879701896397 / 4503599627370496)" by (simp add: ev64)
  have e19: "(Num 130) * (Num (3602879701896397 / 4503599627370496)) = Num 104" by (simp add: ev64)
  have e20: "(Num 128) * (Num (3602879701896397 / 18014398509481984)) = Num (3602879701896397 / 140737488355328)" by (simp add: ev64)
  have e21: "(Num 104) + (Num (3602879701896397 / 140737488355328)) = Num (4559894622712627 / 35184372088832)" by (simp add: ev64)
  have e22: "ToUint8Clamp64 (Num (4559894622712627 / 35184372088832)) = 130" by (simp add: ev64)
  show ?thesis
    by (simp only: restore_stored_def Let_def of_nat_numeral of_nat_0 if_True if_False
        e1 e2 e3 e4 e5 e6 e7 e8 e9 e10 e11 e12 e13 e14 e15 e16 e17 e18 e19 e20 e21 e22)
qed

lemma restore_one_0:
  "restore_stored (lit 1) 0 = 26"
proof -
  have e1: "lit 1 = Num 1" by (simp add: ev64)
  have e2: "lit 128 = Num 128" by (simp add: ev64)
  have e3: "(Num 0) - (Num 128) = Num (- 128)" by (simp add: ev64)
  have e4: "lit 0.5 = Num (1 / 2)" by (simp add: ev64)
  have e5: "(Num (1 / 2)) * (Num 1) = Num (1 / 2)" by (simp add: ev64)
  have e6: "(Num 1) + (Num (1 / 2)) = Num (3 / 2)" by (simp add: ev64)
  have e7: "(Num (- 128)) * (Num (3 / 2)) = Num (- 192)" by (simp add: ev64)
  have e8: "(Num (- 192)) + (Num 128) = Num (- 64)" by (simp add: ev64)
  have e9: "lit 0 = Num 0" by (simp add: ev64)
  have e10: "lit 255 = Num 255" by (simp add: ev64)
  have e11: "Math_min64 (Num 255) (Num (- 64)) = Num (- 64)" by (simp add: ev64)
  have e12: "Math_max64 (Num 0) (Num (- 64)) = Num 0" by (simp add: ev64)
  have e13: "ToUint8Clamp64 (Num 0) = 0" by (simp add: ev64)
  have e14: "lit 0.3 = Num (5404319552844595 / 18014398509481984)" by (simp add: ev64)
  have e15: "(Num (5404319552844595 / 18014398509481984) < Num 1) = True" by (simp add: ev64)
  have e16: "lit 0.2 = Num (3602879701896397 / 18014398509481984)" by (simp add: ev64)
  have e17: "(Num (3602879701896397 / 18014398509481984)) * (Num 1) = Num (3602879701896397 / 18014398509481984)" by (simp add: ev64)
  have e18: "(Num 1) - (Num (3602879701896397 / 18014398509481984)) = Num (3602879701896397 / 4503599627370496)" by (simp add: ev64)
  have e19: "(Num 0) * (Num (3602879701896397 / 4503599627370496)) = Num 0" by (simp add: ev64)
  have e20: "(Num 128) * (Num (3602879701896397 / 18014398509481984)) = Num (3602879701896397 / 140737488355328)" by (simp add: ev64)
  have e21: "(Num 0) + (Num (3602879701896397 / 140737488355328)) = Num (3602879701896397 / 140737488355328)" by (simp add: ev64)
  have e22: "ToUint8Clamp64 (Num (3602879701896397 / 140737488355328)) = 26" by (simp add: ev64)
  show ?thesis
    by (simp only: restore_stored_def Let_def of_nat_numeral of_nat_0 if_True if_False
        e1 e2 e3 e4 e5 e6 e7 e8 e9 e10 e11 e12 e13 e14 e15 e16 e17 e18 e19 e20 e21 e22)
qed

lemma restore_one_255:
  "restore_stored (lit 1) 255 = 230"
proof -
  have e1: "lit 1 = Num 1" by (simp add: ev64)
  have e2: "lit 128 = Num 128" by (simp add: ev64)
  have e3: "(Num 255) - (Num 128) = Num 127" by (simp add: ev64)
  have e4: "lit 0.5 = Num (1 / 2)" by (simp add: ev64)
  have e5: "(Num (1 / 2)) * (Num 1) = Num (1 / 2)" by (simp add: ev64)
  have e6: "(Num 1) + (Num (1 / 2)) = Num (3 / 2)" by (simp add: ev64)
  have e7: "(Num 127) * (Num (3 / 2)) = Num (381 / 2)" by (simp add: ev64)
  have e8: "(Num (381 / 2)) + (Num 128) = Num (637 / 2)" by (simp add: ev64)
  have e9: "lit 0 = Num 0" by (simp add: ev64)
  have e10: "lit 255 = Num 255" by (simp add: ev64)
  have e11: "Math_min64 (Num 255) (Num (637 / 2)) = Num 255" by (simp add: ev64)
  have e12: "Math_max64 (Num 0) (Num 255) = Num 255" by (simp add: ev64)
  have e13: "ToUint8Clamp64 (Num 255) = 255" by (simp add: ev64)
  have e14: "lit 0.3 = Num (5404319552844595 / 18014398509481984)" by (simp add: ev64)
  have e15: "(Num (5404319552844595 / 18014398509481984) < Num 1) = True" by (simp add: ev64)
  have e16: "lit 0.2 = Num (3602879701896397 / 18014398509481984)" by (simp add: ev64)
  have e17: "(Num (3602879701896397 / 18014398509481984)) * (Num 1) = Num (3602879701896397 / 18014398509481984)" by (simp add: ev64)
  have e18: "(Num 1) - (Num (3602879701896397 / 18014398509481984)) = Num (3602879701896397 / 4503599627370496)" by (simp add: ev64)
  have e19: "(Num 255) * (Num (3602879701896397 / 4503599627370496)) = Num 204" by (simp add: ev64)
  have e20: "(Num 128) * (Num (3602879701896397 / 18014398509481984)) = Num (3602879701896397 / 140737488355328)" by (simp add: ev64)
  have e21: "(Num 204) + (Num (3602879701896397 / 140737488355328)) = Num (8078331831595827 / 35184372088832)" by (simp add: ev64)
  have e22: "ToUint8Clamp64 (Num (8078331831595827 / 35184372088832)) = 230" by (simp add: ev64)
  show ?thesis
    by (simp only: restore_stored_def Let_def of_nat_numeral of_nat_0 if_True if_False
        e1 e2 e3 e4 e5 e6 e7 e8 e9 e10 e11 e12 e13 e14 e15 e16 e17 e18 e19 e20 e21 e22)
qed

lemma restore_claimed_one_129:
  "restore_claimed (lit 1) 129 = Num (4545820873877095 / 35184372088832)"
proof -
  have e1: "lit 1 = Num 1" by (simp add: ev64)
  have e2: "lit 128 = Num 128" by (simp add: ev64)
  have e3: "(Num 129) - (Num 128) = Num 1" by (simp add: ev64)
  have e4: "lit 0.5 = Num (1 / 2)" by (simp add: ev64)
  have e5: "(Num (1 / 2)) * (Num 1) = Num (1 / 2)" by (simp add: ev64)
  have e6: "(Num 1) + (Num (1 / 2)) = Num (3 / 2)" by (simp add: ev64)
  have e7: "(Num 1) * (Num (3 / 2)) = Num (3 / 2)" by (simp add: ev64)
  have e8: "(Num (3 / 2)) + (Num 128) = Num (259 / 2)" by (simp add: ev64)
  have e9: "lit 0 = Num 0" by (simp add: ev64)
  have e10: "lit 255 = Num 255" by (simp add: ev64)
  have e11: "Math_min64 (Num 255) (Num (259 / 2)) = Num (259 / 2)" by (simp add: ev64)
  have e12: "Math_max64 (Num 0) (Num (259 / 2)) = Num (259 / 2)" by (simp add: ev64)
  have e13: "lit 0.3 = Num (5404319552844595 / 18014398509481984)" by (simp add: ev64)
  have e14: "(Num (5404319552844595 / 18014398509481984) < Num 1) = True" by (simp add: ev64)
  have e15: "lit 0.2 = Num (3602879701896397 / 18014398509481984)" by (simp add: ev64)
  have e16: "(Num (3602879701896397 / 18014398509481984)) * (Num 1) = Num (3602879701896397 / 18014398509481984)" by (simp add: ev64)
  have e17: "(Num 1) - (Num (3602879701896397 / 18014398509481984)) = Num (3602879701896397 / 4503599627370496)" by (simp add: ev64)
  have e18: "(Num (259 / 2)) * (Num (3602879701896397 / 4503599627370496)) = Num (7290201896805991 / 70368744177664)" by (simp add: ev64)
  have e19: "(Num 128) * (Num (3602879701896397 / 18014398509481984)) = Num (3602879701896397 / 140737488355328)" by (simp add: ev64)
  have e20: "(Num (7290201896805991 / 70368744177664)) + (Num (3602879701896397 / 140737488355328)) = Num (4545820873877095 / 35184372088832)" by (simp add: ev64)
  show ?thesis
    by (simp only: restore_claimed_def Let_def of_nat_numeral of_nat_0 if_True if_False
        e1 e2 e3 e4 e5 e6 e7 e8 e9 e10 e11 e12 e13 e14 e15 e16 e17 e18 e19 e20)
qed

lemma vintage_one_red:
  "store_clamped64 (sepia_red (lit 1) (Num 1) (Num 31) (Num 12)) = 27"
proof -
  have e1: "lit 1 = Num 1" by (simp add: ev64)
  have e2: "lit 0.393 = Num (1769914653556605 / 4503599627370496)" by (simp add: ev64)
  have e3: "(Num 1) * (Num (1769914653556605 / 4503599627370496)) = Num (1769914653556605 / 4503599627370496)" by (simp add: ev64)
  have e4: "lit 0.769 = Num (6926536226895823 / 9007199254740992)" by (simp add: ev64)
  have e5: "(Num 31) * (Num (6926536226895823 / 9007199254740992)) = Num (6710081969805329 / 281474976710656)" by (simp add: ev64)
  have e6: "(Num (1769914653556605 / 4503599627370496)) + (Num (6710081969805329 / 281474976710656)) = Num (6820701635652617 / 281474976710656)" by (simp add: ev64)
  have e7: "lit 0.189 = Num (3404721318292095 / 18014398509481984)" by (simp add: ev64)
  have e8: "(Num 12) * (Num (3404721318292095 / 18014398509481984)) = Num (2553540988719071 / 1125899906842624)" by (simp add: ev64)
  have e9: "(Num (6820701635652617 / 281474976710656)) + (Num (2553540988719071 / 1125899906842624)) = Num (7459086882832385 / 281474976710656)" by (simp add: ev64)
  have e10: "(Num (7459086882832385 / 281474976710656)) * (Num 1) = Num (7459086882832385 / 281474976710656)" by (simp add: ev64)
  have e11: "(Num 1) - (Num 1) = Num 0" by (simp add: ev64)
  have e12: "(Num 1) * (Num 0) = Num 0" by (simp add: ev64)
  have e13: "(Num (7459086882832385 / 281474976710656)) + (Num 0) = Num (7459086882832385 / 281474976710656)" by (simp add: ev64)
  have e14: "lit 255 = Num 255" by (simp add: ev64)
  have e15: "Math_min64 (Num 255) (Num (7459086882832385 / 281474976710656)) = Num (7459086882832385 / 281474976710656)" by (simp add: ev64)
  have e16: "lit 0 = Num 0" by (simp add: ev64)
  have e17: "Math_max64 (Num 0) (Num (7459086882832385 / 281474976710656)) = Num (7459086882832385 / 281474976710656)" by (simp add: ev64)
  have e18: "ToUint8Clamp64 (Num (7459086882832385 / 281474976710656)) = 27" by (simp add: ev64)
  show ?thesis
    by (simp only: store_clamped64_def sepia_red_def Let_def of_nat_numeral of_nat_0 if_True if_False
        e1 e2 e3 e4 e5 e6 e7 e8 e9 e10 e11 e12 e13 e14 e15 e16 e17 e18)
qed

lemma vintage_one_green:
  "store_clamped64 (sepia_green (lit 1) (sepia_red (lit 1) (Num 1) (Num 31) (Num 12)) (Num 31) (Num 12)) = 33"
proof -
  have e1: "lit 1 = Num 1" by (simp add: ev64)
  have e2: "lit 0.393 = Num (1769914653556605 / 4503599627370496)" by (simp add: ev64)
  have e3: "(Num 1) * (Num (1769914653556605 / 4503599627370496)) = Num (1769914653556605 / 4503599627370496)" by (simp add: ev64)
  have e4: "lit 0.769 = Num (6926536226895823 / 9007199254740992)" by (simp add: ev64)
  have e5: "(Num 31) * (Num (6926536226895823 / 9007199254740992)) = Num (6710081969805329 / 281474976710656)" by (simp add: ev64)
  have e6: "(Num (1769914653556605 / 4503599627370496)) + (Num (6710081969805329 / 281474976710656)) = Num (6820701635652617 / 281474976710656)" by (simp add: ev64)
  have e7: "lit 0.189 = Num (3404721318292095 / 18014398509481984)" by (simp add: ev64)
  have e8: "(Num 12) * (Num (3404721318292095 / 18014398509481984)) = Num (2553540988719071 / 1125899906842624)" by (simp add: ev64)
  have e9: "(Num (6820701635652617 / 281474976710656)) + (Num (2553540988719071 / 1125899906842624)) = Num (7459086882832385 / 281474976710656)" by (simp add: ev64)
  have e10: "(Num (7459086882832385 / 281474976710656)) * (Num 1) = Num (7459086882832385 / 281474976710656)" by (simp add: ev64)
  have e11: "(Num 1) - (Num 1) = Num 0" by (simp add: ev64)
  have e12: "(Num 1) * (Num 0) = Num 0" by (simp add: ev64)
  have e13: "(Num (7459086882832385 / 281474976710656)) + (Num 0) = Num (7459086882832385 / 281474976710656)" by (simp add: ev64)
  have e14: "lit 255 = Num 255" by (simp add: ev64)
  have e15: "Math_min64 (Num 255) (Num (7459086882832385 / 281474976710656)) = Num (7459086882832385 / 281474976710656)" by (simp add: ev64)
  have e16: "lit 0.349 = Num (1571756269952303 / 4503599627370496)" by (simp add: ev64)
  have e17: "(Num (7459086882832385 / 281474976710656)) * (Num (1571756269952303 / 4503599627370496)) = Num (1301610661054251 / 140737488355328)" by (simp add: ev64)
  have e18: "lit 0.686 = Num (6178938688752321 / 9007199254740992)" by (simp add: ev64)
  have e19: "(Num 31) * (Num (6178938688752321 / 9007199254740992)) = Num (5985846854728811 / 281474976710656)" by (simp add: ev64)
  have e20: "(Num (1301610661054251 / 140737488355328)) + (Num (5985846854728811 / 281474976710656)) = Num (8589068176837313 / 281474976710656)" by (simp add: ev64)
  have e21: "lit 0.168 = Num (6052837899185947 / 36028797018963968)" by (simp add: ev64)
  have e22: "(Num 12) * (Num (6052837899185947 / 36028797018963968)) = Num (1134907106097365 / 562949953421312)" by (simp add: ev64)
  have e23: "(Num (8589068176837313 / 281474976710656)) + (Num (1134907106097365 / 562949953421312)) = Num (2289130432471499 / 70368744177664)" by (simp add: ev64)
  have e24: "(Num (2289130432471499 / 70368744177664)) * (Num 1) = Num (2289130432471499 / 70368744177664)" by (simp add: ev64)
  have e25: "(Num 31) * (Num 0) = Num 0" by (simp add: ev64)
  have e26: "(Num (2289130432471499 / 70368744177664)) + (Num 0) = Num (2289130432471499 / 70368744177664)" by (simp add: ev64)
  have e27: "Math_min64 (Num 255) (Num (2289130432471499 / 70368744177664)) = Num (2289130432471499 / 70368744177664)" by (simp add: ev64)
  have e28: "lit 0 = Num 0" by (simp add: ev64)
  have e29: "Math_max64 (Num 0) (Num (2289130432471499 / 70368744177664)) = Num (2289130432471499 / 70368744177664)" by (simp add: ev64)
  have e30: "ToUint8Clamp64 (Num (2289130432471499 / 70368744177664)) = 33" by (simp add: ev64)
  show ?thesis
    by (simp only: store_clamped64_def sepia_red_def sepia_green_def Let_def of_nat_numeral of_nat_0 if_True if_False
        e1 e2 e3 e4 e5 e6 e7 e8 e9 e10 e11 e12 e13 e14 e15 e16 e17 e18 e19 e20 e21 e22 e23
        e24 e25 e26 e27 e28 e29 e30)
qed

lemma vintage_one_blue:
  "store_clamped64 (sepia_blue (lit 1) (sepia_red (lit 1) (Num 1) (Num 31) (Num 12)) (sepia_green (lit 1) (sepia_red (lit 1) (Num 1) (Num 31) (Num 12)) (Num 31) (Num 12)) (Num 12)) = 26"
proof -
  have e1: "lit 1 = Num 1" by (simp add: ev64)
  have e2: "lit 0.393 = Num (1769914653556605 / 4503599627370496)" by (simp add: ev64)
  have e3: "(Num 1) * (Num (1769914653556605 / 4503599627370496)) = Num (1769914653556605 / 4503599627370496)" by (simp add: ev64)
  have e4: "lit 0.769 = Num (6926536226895823 / 9007199254740992)" by (simp add: ev64)
  have e5: "(Num 31) * (Num (6926536226895823 / 9007199254740992)) = Num (6710081969805329 / 281474976710656)" by (simp add: ev64)
  have e6: "(Num (1769914653556605 / 4503599627370496)) + (Num (6710081969805329 / 281474976710656)) = Num (6820701635652617 / 281474976710656)" by (simp add: ev64)
  have e7: "lit 0.189 = Num (3404721318292095 / 18014398509481984)" by (simp add: ev64)
  have e8: "(Num 12) * (Num (3404721318292095 / 18014398509481984)) = Num (2553540988719071 / 1125899906842624)" by (simp add: ev64)
  have e9: "(Num (6820701635652617 / 281474976710656)) + (Num (2553540988719071 / 1125899906842624)) = Num (7459086882832385 / 281474976710656)" by (simp add: ev64)
  have e10: "(Num (7459086882832385 / 281474976710656)) * (Num 1) = Num (7459086882832385 / 281474976710656)" by (simp add: ev64)
  have e11: "(Num 1) - (Num 1) = Num 0" by (simp add: ev64)
  have e12: "(Num 1) * (Num 0) = Num 0" by (simp add: ev64)
  have e13: "(Num (7459086882832385 / 281474976710656)) + (Num 0) = Num (7459086882832385 / 281474976710656)" by (simp add: ev64)
  have e14: "lit 255 = Num 255" by (simp add: ev64)
  have e15: "Math_min64 (Num 255) (Num (7459086882832385 / 281474976710656)) = Num (7459086882832385 / 281474976710656)" by (simp add: ev64)
  have e16: "lit 0.349 = Num (1571756269952303 / 4503599627370496)" by (simp add: ev64)
  have e17: "(Num (7459086882832385 / 281474976710656)) * (Num (1571756269952303 / 4503599627370496)) = Num (1301610661054251 / 140737488355328)" by (simp add: ev64)
  have e18: "lit 0.686 = Num (6178938688752321 / 9007199254740992)" by (simp add: ev64)
  have e19: "(Num 31) * (Num (6178938688752321 / 9007199254740992)) = Num (5985846854728811 / 281474976710656)" by (simp add: ev64)
  have e20: "(Num (1301610661054251 / 140737488355328)) + (Num (5985846854728811 / 281474976710656)) = Num (8589068176837313 / 281474976710656)" by (simp add: ev64)
  have e21: "lit 0.168 = Num (6052837899185947 / 36028797018963968)" by (simp add: ev64)
  have e22: "(Num 12) * (Num (6052837899185947 / 36028797018963968)) = Num (1134907106097365 / 562949953421312)" by (simp add: ev64)
  have e23: "(Num (8589068176837313 / 281474976710656)) + (Num (1134907106097365 / 562949953421312)) = Num (2289130432471499 / 70368744177664)" by (simp add: ev64)
  have e24: "(Num (2289130432471499 / 70368744177664)) * (Num 1) = Num (2289130432471499 / 70368744177664)" by (simp add: ev64)
  have e25: "(Num 31) * (Num 0) = Num 0" by (simp add: ev64)
  have e26: "(Num (2289130432471499 / 70368744177664)) + (Num 0) = Num (2289130432471499 / 70368744177664)" by (simp add: ev64)
  have e27: "Math_min64 (Num 255) (Num (2289130432471499 / 70368744177664)) = Num (2289130432471499 / 70368744177664)" by (simp add: ev64)
  have e28: "lit 0.272 = Num (1224979098644775 / 4503599627370496)" by (simp add: ev64)
  have e29: "(Num (7459086882832385 / 281474976710656)) * (Num (1224979098644775 / 4503599627370496)) = Num (8115486528521635 / 1125899906842624)" by (simp add: ev64)
  have e30: "lit 0.534 = Num (2404922201015845 / 4503599627370496)" by (simp add: ev64)
  have e31: "(Num (2289130432471499 / 70368744177664)) * (Num (2404922201015845 / 4503599627370496)) = Num (2444791301879561 / 140737488355328)" by (simp add: ev64)
  have e32: "(Num (8115486528521635 / 1125899906842624)) + (Num (2444791301879561 / 140737488355328)) = Num (6918454235889531 / 281474976710656)" by (simp add: ev64)
  have e33: "lit 0.131 = Num (589971551185535 / 4503599627370496)" by (simp add: ev64)
  have e34: "(Num 12) * (Num (589971551185535 / 4503599627370496)) = Num (1769914653556605 / 1125899906842624)" by (simp add: ev64)
  have e35: "(Num (6918454235889531 / 281474976710656)) + (Num (1769914653556605 / 1125899906842624)) = Num (3680466449639341 / 140737488355328)" by (simp add: ev64)
  have e36: "(Num (3680466449639341 / 140737488355328)) * (Num 1) = Num (3680466449639341 / 140737488355328)" by (simp add: ev64)
  have e37: "(Num 12) * (Num 0) = Num 0" by (simp add: ev64)
  have e38: "(Num (3680466449639341 / 140737488355328)) + (Num 0) = Num (3680466449639341 / 140737488355328)" by (simp add: ev64)
  have e39: "Math_min64 (Num 255) (Num (3680466449639341 / 140737488355328)) = Num (3680466449639341 / 140737488355328)" by (simp add: ev64)
  have e40: "lit 0 = Num 0" by (simp add: ev64)
  have e41: "Math_max64 (Num 0) (Num (3680466449639341 / 140737488355328)) = Num (3680466449639341 / 140737488355328)" by (simp add: ev64)
  have e42: "ToUint8Clamp64 (Num (3680466449639341 / 140737488355328)) = 26" by (simp add: ev64)
  show ?thesis
    by (simp only: store_clamped64_def sepia_red_def sepia_green_def sepia_blue_def Let_def of_nat_numeral of_nat_0 if_True if_False
        e1 e2 e3 e4 e5 e6 e7 e8 e9 e10 e11 e12 e13 e14 e15 e16 e17 e18 e19 e20 e21 e22 e23
        e24 e25 e26 e27 e28 e29 e30 e31 e32 e33 e34 e35 e36 e37 e38 e39 e40 e41 e42)
qed

lemma vintage_one_green_original_red:
  "store_clamped64 (sepia_green (lit 1) (Num 1) (Num 31) (Num 12)) = 24"
proof -
  have e1: "lit 1 = Num 1" by (simp add: ev64)
  have e2: "lit 0.349 = Num (1571756269952303 / 4503599627370496)" by (simp add: ev64)
  have e3: "(Num 1) * (Num (1571756269952303 / 4503599627370496)) = Num (1571756269952303 / 4503599627370496)" by (simp add: ev64)
  have e4: "lit 0.686 = Num (6178938688752321 / 9007199254740992)" by (simp add: ev64)
  have e5: "(Num 31) * (Num (6178938688752321 / 9007199254740992)) = Num (5985846854728811 / 281474976710656)" by (simp add: ev64)
  have e6: "(Num (1571756269952303 / 4503599627370496)) + (Num (5985846854728811 / 281474976710656)) = Num (3042040810800415 / 140737488355328)" by (simp add: ev64)
  have e7: "lit 0.168 = Num (6052837899185947 / 36028797018963968)" by (simp add: ev64)
  have e8: "(Num 12) * (Num (6052837899185947 / 36028797018963968)) = Num (1134907106097365 / 562949953421312)" by (simp add: ev64)
  have e9: "(Num (3042040810800415 / 140737488355328)) + (Num (1134907106097365 / 562949953421312)) = Num (831441896831189 / 35184372088832)" by (simp add: ev64)
  have e10: "(Num (831441896831189 / 35184372088832)) * (Num 1) = Num (831441896831189 / 35184372088832)" by (simp add: ev64)
  have e11: "(Num 1) - (Num 1) = Num 0" by (simp add: ev64)
  have e12: "(Num 31) * (Num 0) = Num 0" by (simp add: ev64)
  have e13: "(Num (831441896831189 / 35184372088832)) + (Num 0) = Num (831441896831189 / 35184372088832)" by (simp add: ev64)
  have e14: "lit 255 = Num 255" by (simp add: ev64)
  have e15: "Math_min64 (Num 255) (Num (831441896831189 / 35184372088832)) = Num (831441896831189 / 35184372088832)" by (simp add: ev64)
  have e16: "lit 0 = Num 0" by (simp add: ev64)
  have e17: "Math_max64 (Num 0) (Num (831441896831189 / 35184372088832)) = Num (831441896831189 / 35184372088832)" by (simp add: ev64)
  have e18: "ToUint8Clamp64 (Num (831441896831189 / 35184372088832)) = 24" by (simp add: ev64)
  show ?thesis
    by (simp only: store_clamped64_def sepia_green_def Let_def of_nat_numeral of_nat_0 if_True if_False
        e1 e2 e3 e4 e5 e6 e7 e8 e9 e10 e11 e12 e13 e14 e15 e16 e17 e18)
qed

lemma restore64_example_half:
  "applyRestorationFilter64 \<lparr>width = 1, height = 1, ctx = True, pixels = [228, 0, 255, 255]\<rparr>
     (lit 0.5)
   = Inr \<lparr>width = 1, height = 1, ctx = True, pixels = [241, 13, 242, 255]\<rparr>"
  by (simp only: restoration64_single_pixel restore_half_228 restore_half_0 restore_half_255)

lemma restore64_example_one:
  "applyRestorationFilter64 \<lparr>width = 1, height = 1, ctx = True, pixels = [129, 0, 255, 255]\<rparr>
     (lit 1)
   = Inr \<lparr>width = 1, height = 1, ctx = True, pixels = [130, 26, 230, 255]\<rparr>"
  by (simp only: restoration64_single_pixel restore_one_129 restore_one_0 restore_one_255)

theorem restore_stores_rounded_binary64_witness:
  "applyRestorationFilter64 \<lparr>width = 1, height = 1, ctx = True, pixels = [228, 0, 255, 255]\<rparr>
     (lit 0.5)
   = Inr \<lparr>width = 1, height = 1, ctx = True, pixels = [241, 13, 242, 255]\<rparr>
   \<and> (0::nat) < length [228, 0, 255, 255::nat] \<and> (0::nat) mod 4 \<noteq> 3
   \<and> restore_stored (lit 0.5) 228 = 241"
proof -
  let ?c = "\<lparr>width = 1, height = 1, ctx = True, pixels = [228, 0, 255, 255]\<rparr>"
  have "ctx ?c" "0 < length (pixels ?c)" "(0::nat) mod 4 \<noteq> 3" by simp_all
  from restore_stores_rounded_binary64 [OF restore64_example_half this] restore64_example_half
  show ?thesis by simp
qed

text \<open>
  C6 as stated fails. At strength 1 the sample 129 is stretched to 129.5, stored as 130,
  and blended to 129.6, stored as 130; the formula of the claim, which blends the
  unstored 129.5, gives 129.2 (in binary64 the value shown), whose nearest sample is 129.
\<close>

theorem restore_claimed_counterexample:
  "applyRestorationFilter64 \<lparr>width = 1, height = 1, ctx = True, pixels = [129, 0, 255, 255]\<rparr>
     (lit 1)
   = Inr \<lparr>width = 1, height = 1, ctx = True, pixels = [130, 26, 230, 255]\<rparr>
   \<and> restore_claimed (lit 1) 129 = Num (4545820873877095 / 35184372088832)
   \<and> ToUint8Clamp64 (restore_claimed (lit 1) 129) = 129"
proof -
  have "ToUint8Clamp64 (Num (4545820873877095 / 35184372088832)) = 129" by simp
  then show ?thesis
    by (simp only: restore64_example_one restore_claimed_one_129 simp_thms)
qed

lemma vintage64_example:
  "applyStyleTransfer64 \<lparr>width = 1, height = 1, ctx = True, pixels = [1, 31, 12, 255]\<rparr>
     ''vintage'' (lit 1)
   = Inr \<lparr>width = 1, height = 1, ctx = True, pixels = [27, 33, 26, 255]\<rparr>"
  by (simp only: vintage64_single_pixel of_nat_numeral of_nat_1 vintage_one_red
      vintage_one_green vintage_one_blue)

theorem vintage_sequential_chain_binary64_witness:
  "applyStyleTransfer64 \<lparr>width = 1, height = 1, ctx = True, pixels = [1, 31, 12, 255]\<rparr>
     ''vintage'' (lit 1)
   = Inr \<lparr>width = 1, height = 1, ctx = True, pixels = [27, 33, 26, 255]\<rparr>
   \<and> (0::nat) mod 4 = 0 \<and> (0::nat) + 2 < length [1, 31, 12, 255::nat]
   \<and> store_clamped64 (sepia_red (lit 1) (Num 1) (Num 31) (Num 12)) = 27
   \<and> store_clamped64 (sepia_green (lit 1) (sepia_red (lit 1) (Num 1) (Num 31) (Num 12))
        (Num 31) (Num 12)) = 33
   \<and> store_clamped64 (sepia_green (lit 1) (Num 1) (Num 31) (Num 12)) = 24"
proof -
  let ?c = "\<lparr>width = 1, height = 1, ctx = True, pixels = [1, 31, 12, 255]\<rparr>"
  have h: "ctx ?c" "(0::nat) mod 4 = 0" "0 + 2 < length (pixels ?c)" by simp_all
  from vintage_sequential_chain_binary64 [OF vintage64_example h] vintage64_example
    vintage_one_green_original_red
  show ?thesis by (simp add: Let_def)
qed

end
